theory Spec2Isabelle
  imports Complex_Main "HOL-Library.AList"
begin

section \<open>Python exceptions\<close>

text \<open>
  The exceptions that the modelled code can raise or has to tell apart. All of them are
  subclasses of Python's \<^verbatim>\<open>Exception\<close>, so a handler \<^verbatim>\<open>except Exception\<close>
  catches every one; \<^verbatim>\<open>except RegistryError\<close> catches only the first; a failed
  \<^verbatim>\<open>socket.recv\<close> is an \<^verbatim>\<open>OSError\<close> carrying its errno.
\<close>

datatype exn =
    RegistryError
  | AttributeError string
  | UnboundLocalError string
  | TypeError
  | ValueError
  | IndexError
  | AssertionError
  | UnicodeDecodeError
  | OverflowError
  | SocketError int
  | SocketTimeout
  | OtherException string

section \<open>leader\_election.py: the Role handle\<close>

subsection \<open>Attributes\<close>

text \<open>
  The attributes that \<^verbatim>\<open>Role.__init__\<close> assigns. The registry client is an external
  collaborator and the lock is rendered by the atomicity of the steps below, so neither
  is a field. \<^verbatim>\<open>_maintenance_thread\<close> holds the identifier of a thread of the pool, or
  \<^verbatim>\<open>None\<close>.
\<close>

record Role =
  name :: string
  role_path :: string
  max_players :: int
  playtime_secs :: int
  expiration_time_msecs :: int
  to_maintain_role :: bool
  maintenance_thread :: "nat option"

definition Role_init :: "string \<Rightarrow> string \<Rightarrow> int \<Rightarrow> int \<Rightarrow> Role" where
  "Role_init nm path maxp playtime =
     \<lparr> name = nm, role_path = path, max_players = maxp, playtime_secs = playtime,
       expiration_time_msecs = 0, to_maintain_role = False, maintenance_thread = None \<rparr>"

text \<open>Values an attribute read can produce.\<close>

datatype pyval =
    PyStr string
  | PyInt int
  | PyBool bool
  | PyNone
  | PyThread nat
  | PyObject string

text \<open>
  \<^verbatim>\<open>self.<a>\<close> on a Role: the instance attributes assigned by \<^verbatim>\<open>__init__\<close>, then the
  methods of the class; any other name raises \<^verbatim>\<open>AttributeError\<close>. No statement of the
  repository assigns another attribute to a Role.
\<close>

definition Role_methods :: "string list" where
  "Role_methods = [''take'', ''release'', ''is_holding'', ''active_players'',
     ''remaining_playtime'', ''_maintain_role'']"

definition Role_getattr :: "Role \<Rightarrow> string \<Rightarrow> exn + pyval" where
  "Role_getattr r a =
     (if a = ''name'' then Inr (PyStr (name r))
      else if a = ''client'' then Inr (PyObject ''RegistryClient'')
      else if a = ''role_path'' then Inr (PyStr (role_path r))
      else if a = ''max_players'' then Inr (PyInt (max_players r))
      else if a = ''playtime_secs'' then Inr (PyInt (playtime_secs r))
      else if a = ''expiration_time_msecs'' then Inr (PyInt (expiration_time_msecs r))
      else if a = ''_lock'' then Inr (PyObject ''RLock'')
      else if a = ''_to_maintain_role'' then Inr (PyBool (to_maintain_role r))
      else if a = ''_maintenance_thread'' then
        Inr (case maintenance_thread r of None \<Rightarrow> PyNone | Some t \<Rightarrow> PyThread t)
      else if a \<in> set Role_methods then Inr (PyObject a)
      else Inl (AttributeError a))"

subsection \<open>The handle with its renewal threads\<close>

text \<open>
  Where a renewal thread stands in \<^verbatim>\<open>_maintain_role\<close>:
  in the first \<^verbatim>\<open>time.sleep(retake_interval)\<close>; at the test of the outer
  \<^verbatim>\<open>while self._to_maintain_role\<close> (read without the lock); past that test and waiting
  for \<^verbatim>\<open>with self._lock\<close>; in the \<^verbatim>\<open>time.sleep(retake_interval)\<close> that ends an
  iteration; returned; or ended by an exception.
\<close>

datatype pc =
    Initial_sleep
  | Loop_test
  | At_lock
  | Interval_sleep
  | Returned
  | Died exn

text \<open>The requests sent to the store, in order.\<close>

datatype store_call =
    Take_role string pyval int int
  | Release_role string string

text \<open>
  A handle together with every thread ever started for it (a thread's identifier is its
  index), the calls made to the store, and the number of times a renewal thread has
  entered the \<^verbatim>\<open>try\<close> block of \<^verbatim>\<open>_maintain_role\<close>.
\<close>

record handle =
  role :: Role
  threads :: "pc list"
  calls :: "store_call list"
  renewal_attempts :: nat

definition handle_init :: "string \<Rightarrow> string \<Rightarrow> int \<Rightarrow> int \<Rightarrow> handle" where
  "handle_init nm path maxp playtime =
     \<lparr> role = Role_init nm path maxp playtime, threads = [], calls = [], renewal_attempts = 0 \<rparr>"

definition alive :: "pc \<Rightarrow> bool" where
  "alive p = (case p of Returned \<Rightarrow> False | Died e \<Rightarrow> False | _ \<Rightarrow> True)"

definition running_tasks :: "handle \<Rightarrow> nat" where
  "running_tasks h = length (filter alive (threads h))"

subsection \<open>take and release\<close>

text \<open>
  \<^verbatim>\<open>take()\<close>, run under the lock. The argument is what \<^verbatim>\<open>client.take_role\<close> does:
  it returns a result whose \<^verbatim>\<open>client_expiration_time_in_msecs\<close> is given, or raises.
  Only \<^verbatim>\<open>RegistryError\<close> is caught.
\<close>

definition Role_take :: "exn + int \<Rightarrow> handle \<Rightarrow> (exn + bool) \<times> handle" where
  "Role_take resp h =
     (let r = role h;
          h1 = h\<lparr>calls := calls h @
                 [Take_role (role_path r) (PyStr (name r)) (playtime_secs r) (max_players r)]\<rparr>
      in case resp of
           Inl e \<Rightarrow> (if e = RegistryError then (Inr False, h1) else (Inl e, h1))
         | Inr expiry \<Rightarrow>
             (let r1 = (if expiry > expiration_time_msecs r
                        then r\<lparr>expiration_time_msecs := expiry\<rparr> else r);
                  r2 = r1\<lparr>to_maintain_role := True\<rparr>
              in if maintenance_thread r2 = None
                 then (Inr True,
                       h1\<lparr>role := r2\<lparr>maintenance_thread := Some (length (threads h1))\<rparr>,
                          threads := threads h1 @ [Initial_sleep]\<rparr>)
                 else (Inr True, h1\<lparr>role := r2\<rparr>)))"

text \<open>
  \<^verbatim>\<open>release()\<close>, run under the lock. The argument is what \<^verbatim>\<open>client.release_role\<close>
  does. The handler \<^verbatim>\<open>except Exception: num_attempts -= 1\<close> reads a local variable that
  the function never assigns before, so the handler itself raises
  \<^verbatim>\<open>UnboundLocalError\<close>, which leaves \<^verbatim>\<open>release()\<close>.
\<close>

definition release :: "exn + unit \<Rightarrow> handle \<Rightarrow> (exn + bool) \<times> handle" where
  "release resp h =
     (let r = role h;
          r1 = r\<lparr>to_maintain_role := False\<rparr>;
          r2 = (if maintenance_thread r1 \<noteq> None then r1\<lparr>maintenance_thread := None\<rparr> else r1);
          h1 = h\<lparr>role := r2, calls := calls h @ [Release_role (role_path r2) (name r2)]\<rparr>
      in case resp of
           Inr u \<Rightarrow> (Inr True, h1)
         | Inl e \<Rightarrow> (Inl (UnboundLocalError ''num_attempts''), h1))"

subsection \<open>The renewal thread\<close>

text \<open>
  One pass through the \<^verbatim>\<open>try\<close> block. The arguments of the call are evaluated first,
  \<^verbatim>\<open>self.instance_name\<close> among them; only when they all have a value is the request sent,
  and the argument \<open>resp\<close> says what the store then does.
\<close>

definition renewal_attempt :: "exn + int \<Rightarrow> handle \<Rightarrow> (exn + int) \<times> handle" where
  "renewal_attempt resp h =
     (let r = role h; h1 = h\<lparr>renewal_attempts := renewal_attempts h + 1\<rparr>
      in case Role_getattr r ''instance_name'' of
           Inl e \<Rightarrow> (Inl e, h1)
         | Inr player \<Rightarrow>
             (resp, h1\<lparr>calls := calls h1 @
                [Take_role (role_path r) player (playtime_secs r) (max_players r)]\<rparr>))"

text \<open>
  The inner loop \<^verbatim>\<open>while self._to_maintain_role and retry_remaining > 0\<close>, the first
  argument being \<^verbatim>\<open>retry_remaining\<close>. A successful call records the expiration time if
  it is newer and sets \<^verbatim>\<open>retry_remaining = 0\<close>; any exception is swallowed and costs
  one retry.
\<close>

fun renewal_loop :: "nat \<Rightarrow> exn + int \<Rightarrow> handle \<Rightarrow> handle" where
  "renewal_loop 0 resp h = h"
| "renewal_loop (Suc n) resp h =
     (if to_maintain_role (role h) then
        (case renewal_attempt resp h of
           (Inr expiry, h1) \<Rightarrow>
             (if expiry > expiration_time_msecs (role h1)
              then h1\<lparr>role := (role h1)\<lparr>expiration_time_msecs := expiry\<rparr>\<rparr> else h1)
         | (Inl e, h1) \<Rightarrow> renewal_loop n resp h1)
      else h)"

definition num_retries :: nat where
  "num_retries = 1"

definition retake_interval :: "Role \<Rightarrow> int" where
  "retake_interval r = playtime_secs r - 1 - int num_retries"

text \<open>\<^verbatim>\<open>time.sleep\<close> raises \<^verbatim>\<open>ValueError\<close> on a negative length.\<close>

definition sleep_then :: "int \<Rightarrow> pc \<Rightarrow> pc" where
  "sleep_then secs p = (if secs < 0 then Died ValueError else p)"

text \<open>
  One scheduling step of a renewal thread standing at \<open>p\<close>. The block under the lock is
  one step: \<^verbatim>\<open>take()\<close> and \<^verbatim>\<open>release()\<close> need the same lock, so they run before or
  after it, never inside.
\<close>

definition thread_step :: "exn + int \<Rightarrow> pc \<Rightarrow> handle \<Rightarrow> pc \<times> handle" where
  "thread_step resp p h =
     (case p of
        Initial_sleep \<Rightarrow> (sleep_then (retake_interval (role h)) Loop_test, h)
      | Loop_test \<Rightarrow> (if to_maintain_role (role h) then At_lock else Returned, h)
      | At_lock \<Rightarrow> (Interval_sleep, renewal_loop num_retries resp h)
      | Interval_sleep \<Rightarrow> (sleep_then (retake_interval (role h)) Loop_test, h)
      | Returned \<Rightarrow> (Returned, h)
      | Died e \<Rightarrow> (Died e, h))"

text \<open>
  What can happen to a handle: its owner calls \<^verbatim>\<open>take()\<close> or \<^verbatim>\<open>release()\<close>, or the
  scheduler lets renewal thread \<open>t\<close> make a step. Each event carries the store's answer
  to the request the step may send.
\<close>

datatype event =
    Take "exn + int"
  | Release "exn + unit"
  | Tick nat "exn + int"

definition tick :: "nat \<Rightarrow> exn + int \<Rightarrow> handle \<Rightarrow> handle" where
  "tick t resp h =
     (if t < length (threads h)
      then (case thread_step resp (threads h ! t) h of
              (p', h') \<Rightarrow> h'\<lparr>threads := (threads h')[t := p']\<rparr>)
      else h)"

fun exec :: "event \<Rightarrow> handle \<Rightarrow> handle" where
  "exec (Take resp) h = snd (Role_take resp h)"
| "exec (Release resp) h = snd (release resp h)"
| "exec (Tick t resp) h = tick t resp h"

fun run :: "event list \<Rightarrow> handle \<Rightarrow> handle" where
  "run [] h = h"
| "run (e # es) h = run es (exec e h)"

fun is_tick :: "event \<Rightarrow> bool" where
  "is_tick (Tick t resp) = True"
| "is_tick e = False"

section \<open>Python strings and integers\<close>

text \<open>
  A Python \<^verbatim>\<open>bytes\<close> value is a list of 8-bit characters, and a \<^verbatim>\<open>str\<close> is
  represented by its UTF-8 encoding, so that \<^verbatim>\<open>bytes.decode()\<close> is the identity on
  well-formed UTF-8 and raises \<^verbatim>\<open>UnicodeDecodeError\<close> otherwise, and \<^verbatim>\<open>str.encode()\<close>
  is the identity. Splitting at commas and comparing strings give the same result on
  the encoding as on the code points.
\<close>

text \<open>
  Well-formed UTF-8: the length of a sequence by its first byte, the range of the second
  byte, which excludes overlong forms, surrogates and code points above U+10FFFF, and
  the range of the other continuation bytes.
\<close>

definition lead_length :: "nat \<Rightarrow> nat" where
  "lead_length b =
     (if b < 0x80 then 1
      else if 0xC2 \<le> b \<and> b \<le> 0xDF then 2
      else if 0xE0 \<le> b \<and> b \<le> 0xEF then 3
      else if 0xF0 \<le> b \<and> b \<le> 0xF4 then 4
      else 0)"

definition second_byte_ok :: "nat \<Rightarrow> nat \<Rightarrow> bool" where
  "second_byte_ok b c =
     (if b = 0xE0 then 0xA0 \<le> c \<and> c \<le> 0xBF
      else if b = 0xED then 0x80 \<le> c \<and> c \<le> 0x9F
      else if b = 0xF0 then 0x90 \<le> c \<and> c \<le> 0xBF
      else if b = 0xF4 then 0x80 \<le> c \<and> c \<le> 0x8F
      else 0x80 \<le> c \<and> c \<le> 0xBF)"

definition continuation :: "nat \<Rightarrow> bool" where
  "continuation c = (0x80 \<le> c \<and> c \<le> 0xBF)"

fun utf8_valid :: "nat list \<Rightarrow> bool" where
  "utf8_valid [] = True"
| "utf8_valid (b # bs) =
     (let n = lead_length b in
      0 < n \<and> n - 1 \<le> length bs
      \<and> (if 1 < n then second_byte_ok b (hd bs) else True)
      \<and> list_all continuation (drop 1 (take (n - 1) bs))
      \<and> utf8_valid (drop (n - 1) bs))"

definition decode :: "string \<Rightarrow> exn + string" where
  "decode bs = (if utf8_valid (map of_char bs) then Inr bs else Inl UnicodeDecodeError)"

text \<open>
  The code points of a well-formed UTF-8 text: the payload bits of the first byte of a
  sequence, then six bits of each continuation byte.
\<close>

definition utf8_scalar :: "nat \<Rightarrow> nat list \<Rightarrow> nat" where
  "utf8_scalar b cs =
     fold (\<lambda>c acc. acc * 64 + (c - 0x80)) cs
       (if b < 0x80 then b else if b < 0xE0 then b - 0xC0 else if b < 0xF0 then b - 0xE0
        else b - 0xF0)"

fun code_points :: "nat list \<Rightarrow> nat list" where
  "code_points [] = []"
| "code_points (b # bs) =
     (let n = lead_length b
      in utf8_scalar b (take (n - 1) bs) # code_points (drop (n - 1) bs))"

text \<open>\<^verbatim>\<open>s.split(",")\<close>: one more field than there are commas.\<close>

fun split_comma :: "string \<Rightarrow> string list" where
  "split_comma [] = [[]]"
| "split_comma (c # cs) =
     (if c = CHR '','' then [] # split_comma cs
      else (case split_comma cs of
              f # fs \<Rightarrow> (c # f) # fs
            | [] \<Rightarrow> [[c]]))"

text \<open>
  The interpreter refuses to convert between \<^verbatim>\<open>int\<close> and \<^verbatim>\<open>str\<close> when more decimal
  digits are involved than \<^verbatim>\<open>sys.int_info.default_max_str_digits\<close>.
\<close>

definition max_str_digits :: nat where
  "max_str_digits = 4300"

text \<open>
  \<^verbatim>\<open>str(n)\<close> for an integer: decimal digits, a minus sign before a negative number.
  \<open>py_str\<close> is the text; \<open>str_int\<close> is the call, which raises \<^verbatim>\<open>ValueError\<close> when
  the text has too many digits.
\<close>

definition digit_char :: "nat \<Rightarrow> char" where
  "digit_char d = ''0123456789'' ! d"

fun nat_digits :: "nat \<Rightarrow> string" where
  "nat_digits n = (if n < 10 then [digit_char n] else nat_digits (n div 10) @ [digit_char (n mod 10)])"

declare nat_digits.simps [simp del]

definition py_str :: "int \<Rightarrow> string" where
  "py_str i = (if i < 0 then CHR ''-'' # nat_digits (nat (- i)) else nat_digits (nat i))"

definition str_int :: "int \<Rightarrow> exn + string" where
  "str_int i =
     (if length (nat_digits (nat \<bar>i\<bar>)) > max_str_digits then Inl ValueError else Inr (py_str i))"

text \<open>
  \<^verbatim>\<open>int(s)\<close> for a string, as CPython 3.11 computes it. First every code point from
  127 on is replaced: a Unicode blank by a space, a Unicode decimal digit by the ASCII
  digit of its value; any other one makes the call fail. Then the ASCII text is read:
  blanks of the C locale, an optional sign, decimal digits with single underscores
  between them, blanks, and nothing else. \<open>None\<close> is \<^verbatim>\<open>ValueError\<close>.
\<close>

text \<open>
  The blanks from 127 on (\<^verbatim>\<open>Py_UNICODE_ISSPACE\<close>), and the code points of the digit
  zero of every decimal script of Unicode 14.0, the version that CPython 3.11 carries;
  the nine code points after a zero are the digits one to nine.
\<close>

definition unicode_space :: "nat \<Rightarrow> bool" where
  "unicode_space cp =
     (cp \<in> set [0x85, 0xA0, 0x1680, 0x2028, 0x2029, 0x202F, 0x205F, 0x3000]
      \<or> (0x2000 \<le> cp \<and> cp \<le> 0x200A))"

definition decimal_zeros :: "nat list" where
  "decimal_zeros =
     [0x30, 0x660, 0x6F0, 0x7C0, 0x966, 0x9E6, 0xA66, 0xAE6, 0xB66, 0xBE6, 0xC66, 0xCE6,
      0xD66, 0xDE6, 0xE50, 0xED0, 0xF20, 0x1040, 0x1090, 0x17E0, 0x1810, 0x1946, 0x19D0,
      0x1A80, 0x1A90, 0x1B50, 0x1BB0, 0x1C40, 0x1C50, 0xA620, 0xA8D0, 0xA900, 0xA9D0,
      0xA9F0, 0xAA50, 0xABF0, 0xFF10, 0x104A0, 0x10D30, 0x11066, 0x110F0, 0x11136,
      0x111D0, 0x112F0, 0x11450, 0x114D0, 0x11650, 0x116C0, 0x11730, 0x118E0, 0x11950,
      0x11C50, 0x11D50, 0x11DA0, 0x16A60, 0x16AC0, 0x16B50, 0x1D7CE, 0x1D7D8, 0x1D7E2,
      0x1D7EC, 0x1D7F6, 0x1E140, 0x1E2F0, 0x1E950, 0x1FBF0]"

definition unicode_decimal :: "nat \<Rightarrow> nat option" where
  "unicode_decimal cp =
     (case filter (\<lambda>z. z \<le> cp \<and> cp < z + 10) decimal_zeros of
        [] \<Rightarrow> None
      | z # zs \<Rightarrow> Some (cp - z))"

definition to_ascii :: "nat \<Rightarrow> nat option" where
  "to_ascii cp =
     (if cp < 127 then Some cp
      else if unicode_space cp then Some 32
      else map_option (\<lambda>d. 48 + d) (unicode_decimal cp))"

definition digit_val :: "nat \<Rightarrow> nat option" where
  "digit_val c = (if 48 \<le> c \<and> c \<le> 57 then Some (c - 48) else None)"

text \<open>\<^verbatim>\<open>Py_ISSPACE\<close>: space, tab, line feed, vertical tab, form feed, carriage return.\<close>

definition is_space :: "nat \<Rightarrow> bool" where
  "is_space c = (c \<in> set [9, 10, 11, 12, 13, 32])"

definition strip :: "nat list \<Rightarrow> nat list" where
  "strip s = rev (dropWhile is_space (rev (dropWhile is_space s)))"

text \<open>The digits, 95 being the underscore, which must stand before a digit.\<close>

fun dec_digits :: "nat \<Rightarrow> nat list \<Rightarrow> nat option" where
  "dec_digits acc [] = Some acc"
| "dec_digits acc (c # cs) =
     (if c = 95 then
        (case cs of
           [] \<Rightarrow> None
         | d # ds \<Rightarrow> (if digit_val d = None then None else dec_digits acc cs))
      else (case digit_val c of
              None \<Rightarrow> None
            | Some v \<Rightarrow> dec_digits (acc * 10 + v) cs))"

definition unsigned :: "nat list \<Rightarrow> nat option" where
  "unsigned s =
     (case s of
        [] \<Rightarrow> None
      | c # cs \<Rightarrow>
          (if digit_val c = None then None
           else if length (filter (\<lambda>c. c \<noteq> 95) s) > max_str_digits then None
           else dec_digits 0 s))"

text \<open>The ASCII text after the replacement, 45 and 43 being the signs.\<close>

definition parse_long :: "nat list \<Rightarrow> int option" where
  "parse_long s =
     (case strip s of
        [] \<Rightarrow> None
      | c # cs \<Rightarrow>
          (if c = 45 then map_option (\<lambda>n. - int n) (unsigned cs)
           else if c = 43 then map_option int (unsigned cs)
           else map_option int (unsigned (c # cs))))"

definition py_int :: "string \<Rightarrow> int option" where
  "py_int s =
     (let bs = map of_char s
      in if utf8_valid bs then
           (case those (map to_ascii (code_points bs)) of
              None \<Rightarrow> None
            | Some a \<Rightarrow> parse_long a)
         else None)"

text \<open>The characters that \<open>nat_digits\<close> writes.\<close>

definition is_digit :: "char \<Rightarrow> bool" where
  "is_digit c = (\<exists>d<10. c = digit_char d)"

text \<open>
  The payload of an assignment: \<^verbatim>\<open>",".join(map(str, (assignment[0], assignment[1])))\<close>.
  \<open>range_message\<close> is the text; \<open>join_range\<close> is the expression, which converts the
  lower bound first and raises what \<^verbatim>\<open>str\<close> raises.
\<close>

definition range_message :: "int \<times> int \<Rightarrow> string" where
  "range_message a = py_str (fst a) @ '','' @ py_str (snd a)"

definition join_range :: "int \<times> int \<Rightarrow> exn + string" where
  "join_range a =
     (case str_int (fst a) of
        Inl e \<Rightarrow> Inl e
      | Inr lower \<Rightarrow>
          (case str_int (snd a) of
             Inl e \<Rightarrow> Inl e
           | Inr higher \<Rightarrow> Inr (range_message a)))"

text \<open>
  \<^verbatim>\<open>r = assignment.split(","); (int(r[0]), int(r[1]))\<close>. The tuple is built from left to
  right, so a bad first field raises \<^verbatim>\<open>ValueError\<close> before a missing second field
  raises \<^verbatim>\<open>IndexError\<close>.
\<close>

definition parse_assignment :: "string \<Rightarrow> exn + int \<times> int" where
  "parse_assignment k =
     (case split_comma k of
        [] \<Rightarrow> Inl IndexError
      | r0 # rest \<Rightarrow>
          (case py_int r0 of
             None \<Rightarrow> Inl ValueError
           | Some lower \<Rightarrow>
               (case rest of
                  [] \<Rightarrow> Inl IndexError
                | r1 # others \<Rightarrow>
                    (case py_int r1 of
                       None \<Rightarrow> Inl ValueError
                     | Some higher \<Rightarrow> Inr (lower, higher)))))"

section \<open>Python floats\<close>

text \<open>
  A Python \<^verbatim>\<open>float\<close> is an IEEE 754 binary64 number. \<open>double\<close> is the type of the
  finite ones, as the reals they denote: an integer significand below \<open>2 ^ 53\<close> in
  magnitude times a power of two from \<open>2 powi - 1074\<close> to \<open>2 powi 971\<close>.
\<close>

typedef double = "{x :: real. \<exists>m e :: int. \<bar>m\<bar> < 2 ^ 53 \<and> - 1074 \<le> e \<and> e \<le> 971 \<and> x = of_int m * 2 powi e}"
  morphisms real_of_double double_of_real
proof
  show "0 \<in> {x :: real. \<exists>m e :: int. \<bar>m\<bar> < 2 ^ 53 \<and> - 1074 \<le> e \<and> e \<le> 971 \<and> x = of_int m * 2 powi e}"
    by (auto intro!: exI [of _ 0])
qed

text \<open>The float of a small integer, which is exact below \<open>2 ^ 53\<close> in magnitude.\<close>

definition double_of_int :: "int \<Rightarrow> double" where
  "double_of_int n = double_of_real (of_int n)"

text \<open>Rounding to the nearest integer, a tie going to the even one.\<close>

definition round_half_even :: "real \<Rightarrow> int" where
  "round_half_even y =
     (let f = \<lfloor>y\<rfloor>
      in if y - of_int f < 1 / 2 then f
         else if 1 / 2 < y - of_int f then f + 1
         else if even f then f else f + 1)"

text \<open>
  Rounding a real to 53 significant bits, to nearest and ties to even: with
  \<open>2 powi E \<le> \<bar>x\<bar> < 2 powi (E + 1)\<close> the result is a multiple of \<open>2 powi (E - 52)\<close>.
\<close>

definition round53 :: "real \<Rightarrow> real" where
  "round53 x =
     (if x = 0 then 0
      else (let u = 2 powi (\<lfloor>log 2 \<bar>x\<bar>\<rfloor> - 52)
            in of_int (round_half_even (x / u)) * u))"

text \<open>
  \<^verbatim>\<open>x + y\<close> on floats: the exact sum, rounded. Two cases need a word. A sum below
  \<open>2 powi - 1022\<close> in magnitude is a multiple of \<open>2 powi - 1074\<close>, as both terms are,
  so it is a float and the rounding leaves it, as binary64 does. A sum that rounds to
  \<open>2 powi 1024\<close> or beyond in magnitude is an infinity in Python; here it is that real,
  which is smaller or greater than every finite float just as the infinity of its sign.
\<close>

definition float_add :: "double \<Rightarrow> double \<Rightarrow> real" where
  "float_add x y = round53 (real_of_double x + real_of_double y)"

text \<open>The reals with a significand of 53 bits, whatever the exponent.\<close>

definition is_double :: "real \<Rightarrow> bool" where
  "is_double x = (\<exists>m e :: int. \<bar>m\<bar> < 2 ^ 53 \<and> x = of_int m * 2 powi e)"

section \<open>leader\_election.py: reading the holders of a role\<close>

text \<open>
  \<^verbatim>\<open>Role.active_players()\<close>. The argument is what \<^verbatim>\<open>client.read_role\<close> does: it returns
  the mapping \<^verbatim>\<open>players_remaining_milliseconds\<close> or raises. The result is \<open>Inr (Some ps)\<close>
  for the set of the players with a positive remaining playtime, \<open>Inr None\<close> when the
  method returns \<^verbatim>\<open>None\<close> (after a \<^verbatim>\<open>RegistryError\<close>), and \<open>Inl e\<close> for any other
  exception, which is not caught. A Python set is a duplicate-free list here, in the order
  in which it is iterated; that order is not fixed by Python, and the statements below
  hold for every order.
\<close>

definition active_players :: "exn + (string \<times> int) list \<Rightarrow> exn + string list option" where
  "active_players resp =
     (case resp of
        Inr players \<Rightarrow>
          Inr (Some (remdups (map fst (filter (\<lambda>(player_name, remaining_playtime).
                       remaining_playtime > 0) players))))
      | Inl e \<Rightarrow> (if e = RegistryError then Inr None else Inl e))"

section \<open>samples/manager\_workers.py: the manager\<close>

subsection \<open>State\<close>

text \<open>
  \<^verbatim>\<open>ProblemState\<close>. A dictionary is an association list in insertion order with no key
  twice: assigning to a present key keeps its place (\<open>AList.update\<close>), \<^verbatim>\<open>del\<close> removes
  the entry (\<open>AList.delete\<close>). The values of \<^verbatim>\<open>pending\<close> are readings of
  \<^verbatim>\<open>time.time()\<close>, floats counting seconds.
\<close>

record ProblemState =
  "next" :: int
  pending :: "(string \<times> double) list"
  busy_workers :: "(string \<times> string) list"
  finished :: int

definition ProblemState_init :: ProblemState where
  "ProblemState_init = \<lparr> next = 0, pending = [], busy_workers = [], finished = 0 \<rparr>"

text \<open>
  A bound UDP socket: the datagrams that have arrived and wait to be received, the
  datagrams sent so far with the port they went to, and the errno of the error that a
  non-blocking \<^verbatim>\<open>recv\<close> raises when nothing waits.
\<close>

record udp_socket =
  inbox :: "string list"
  outbox :: "(string \<times> int) list"
  wouldblock :: int

text \<open>What \<^verbatim>\<open>print\<close> has written, by the statement that wrote it.\<close>

datatype printed =
    Recv_socket_error exn
  | Recv_exception exn
  | Store_error

text \<open>
  \<^verbatim>\<open>Manager\<close>: \<^verbatim>\<open>_resp_wait_time\<close>, \<^verbatim>\<open>_assignment_range\<close>, \<^verbatim>\<open>_problem\<close> and
  \<^verbatim>\<open>_sock\<close>, with the number of calls of \<^verbatim>\<open>time.time()\<close> made so far and the lines
  printed. The two roles are passed to the functions that use them.
\<close>

record Manager =
  resp_wait_time :: double
  assignment_range :: int
  problem :: ProblemState
  sock :: udp_socket
  clock_reads :: nat
  stdout :: "printed list"

definition RESULT_WAIT_TIME_SECS :: int where
  "RESULT_WAIT_TIME_SECS = 1"

definition ASSIGNMENT_SIZE :: int where
  "ASSIGNMENT_SIZE = 1000"

definition Manager_init :: "udp_socket \<Rightarrow> Manager" where
  "Manager_init s =
     \<lparr> resp_wait_time = double_of_int RESULT_WAIT_TIME_SECS, assignment_range = ASSIGNMENT_SIZE,
       problem = ProblemState_init, sock = s, clock_reads = 0, stdout = [] \<rparr>"

subsection \<open>Receiving results\<close>

text \<open>\<^verbatim>\<open>(lower, higher, count, worker) = msg.decode().split(",")\<close>.\<close>

definition unpack_result :: "string \<Rightarrow> exn + string \<times> string \<times> string \<times> string" where
  "unpack_result msg =
     (case decode msg of
        Inl e \<Rightarrow> Inl e
      | Inr s \<Rightarrow>
          (case split_comma s of
             [lower, higher, count, worker] \<Rightarrow> Inr (lower, higher, count, worker)
           | _ \<Rightarrow> Inl ValueError))"

text \<open>
  The body of the loop of \<^verbatim>\<open>_recv_results\<close> for one message, up to the next
  \<^verbatim>\<open>recv\<close>: the exception that ends it, if any, and the problem state as changed so far.
\<close>

definition record_result :: "string \<Rightarrow> ProblemState \<Rightarrow> exn option \<times> ProblemState" where
  "record_result msg p =
     (case unpack_result msg of
        Inl e \<Rightarrow> (Some e, p)
      | Inr (lower, higher, count, worker) \<Rightarrow>
          (if worker \<notin> set (map fst (busy_workers p)) then (Some AssertionError, p)
           else
             (let p1 = p\<lparr>busy_workers := AList.delete worker (busy_workers p)\<rparr>;
                  assignment = lower @ '','' @ higher
              in if assignment \<in> set (map fst (pending p1)) then
                   (case py_int count of
                      None \<Rightarrow> (Some ValueError, p1)
                    | Some c \<Rightarrow>
                        (None, p1\<lparr>finished := finished p1 + c,
                                  pending := AList.delete assignment (pending p1)\<rparr>))
                 else (None, p1))))"

text \<open>
  The \<^verbatim>\<open>try\<close> block of \<^verbatim>\<open>_recv_results\<close>: \<^verbatim>\<open>recv(1024)\<close> takes the next datagram,
  cut to 1024 bytes; on an empty queue it raises. The loop ends without an exception at a
  datagram of length zero. The result is the exception that ended the block, if any, the
  problem state and the datagrams still waiting.
\<close>

fun recv_loop :: "int \<Rightarrow> ProblemState \<Rightarrow> string list \<Rightarrow> exn option \<times> ProblemState \<times> string list" where
  "recv_loop errno p [] = (Some (SocketError errno), p, [])"
| "recv_loop errno p (d # ds) =
     (let msg = take 1024 d
      in if length msg > 0 then
           (case record_result msg p of
              (Some e, p1) \<Rightarrow> (Some e, p1, ds)
            | (None, p1) \<Rightarrow> recv_loop errno p1 ds)
         else (None, p, ds))"

text \<open>
  \<^verbatim>\<open>_recv_results\<close> with its two handlers: a socket error is printed unless its errno is
  35; any other exception is printed; neither is raised again.
\<close>

definition recv_results :: "Manager \<Rightarrow> Manager" where
  "recv_results m =
     (case recv_loop (wouldblock (sock m)) (problem m) (inbox (sock m)) of
        (r, p, rest) \<Rightarrow>
          (let m1 = m\<lparr>problem := p, sock := (sock m)\<lparr>inbox := rest\<rparr>\<rparr>
           in case r of
                None \<Rightarrow> m1
              | Some (SocketError n) \<Rightarrow>
                  (if n \<noteq> 35 then m1\<lparr>stdout := stdout m1 @ [Recv_socket_error (SocketError n)]\<rparr>
                   else m1)
              | Some SocketTimeout \<Rightarrow> m1\<lparr>stdout := stdout m1 @ [Recv_socket_error SocketTimeout]\<rparr>
              | Some e \<Rightarrow> m1\<lparr>stdout := stdout m1 @ [Recv_exception e]\<rparr>))"

subsection \<open>Choosing and sending an assignment\<close>

text \<open>
  The loop of \<^verbatim>\<open>_get_assignment\<close> over \<^verbatim>\<open>pending.items()\<close>. Each test calls
  \<^verbatim>\<open>time.time()\<close>; \<open>now k\<close> is what the call number \<open>k\<close> returns. The sum
  \<^verbatim>\<open>timestamp + self._resp_wait_time\<close> is a sum of floats, the waiting time being
  converted to one. The result is the key of the entry at which the loop returns, if
  any, and the number of calls made.
\<close>

fun scan_pending ::
  "(nat \<Rightarrow> double) \<Rightarrow> double \<Rightarrow> nat \<Rightarrow> (string \<times> double) list \<Rightarrow> string option \<times> nat" where
  "scan_pending now wait k [] = (None, k)"
| "scan_pending now wait k ((assignment, timestamp) # rest) =
     (if float_add timestamp wait < real_of_double (now k) then (Some assignment, Suc k)
      else scan_pending now wait (Suc k) rest)"

definition get_assignment :: "(nat \<Rightarrow> double) \<Rightarrow> Manager \<Rightarrow> (exn + int \<times> int) \<times> Manager" where
  "get_assignment now m =
     (case scan_pending now (resp_wait_time m) (clock_reads m) (pending (problem m)) of
        (Some assignment, k) \<Rightarrow> (parse_assignment assignment, m\<lparr>clock_reads := k\<rparr>)
      | (None, k) \<Rightarrow>
          (Inr (next (problem m), next (problem m) + assignment_range m), m\<lparr>clock_reads := k\<rparr>))"

text \<open>
  \<^verbatim>\<open>_send_assignment\<close>. Building the message can raise \<^verbatim>\<open>ValueError\<close>, and so can
  \<^verbatim>\<open>int(worker)\<close>; \<^verbatim>\<open>sendto\<close> raises \<^verbatim>\<open>OverflowError\<close> for a port outside
  0..65535; the datagram has left when the assertion on \<^verbatim>\<open>next\<close> is tested.
\<close>

definition send_assignment ::
  "(nat \<Rightarrow> double) \<Rightarrow> int \<times> int \<Rightarrow> string \<Rightarrow> Manager \<Rightarrow> exn option \<times> Manager" where
  "send_assignment now assignment worker m =
     (case join_range assignment of
        Inl e \<Rightarrow> (Some e, m)
      | Inr message \<Rightarrow>
          (case py_int worker of
             None \<Rightarrow> (Some ValueError, m)
           | Some worker_port \<Rightarrow>
               (if worker_port < 0 \<or> 65535 < worker_port then (Some OverflowError, m)
                else
                  (let m1 = m\<lparr>sock := (sock m)\<lparr>outbox := outbox (sock m) @ [(message, worker_port)]\<rparr>\<rparr>;
                       p = problem m1
                   in if snd assignment > next p \<and> fst assignment \<noteq> next p
                      then (Some AssertionError, m1)
                      else
                        (let p1 = (if snd assignment > next p then p\<lparr>next := snd assignment\<rparr> else p);
                             p2 = p1\<lparr>pending := AList.update message (now (clock_reads m1)) (pending p1)\<rparr>;
                             p3 = p2\<lparr>busy_workers := AList.update worker message (busy_workers p2)\<rparr>
                         in (None, m1\<lparr>problem := p3, clock_reads := Suc (clock_reads m1)\<rparr>))))))"

text \<open>
  The loop \<^verbatim>\<open>for worker in free_workers\<close> of \<^verbatim>\<open>do_work\<close>, the last argument being
  \<^verbatim>\<open>assigned\<close>. Neither call is inside a \<^verbatim>\<open>try\<close>, so an exception ends the loop and
  \<^verbatim>\<open>do_work\<close>.
\<close>

fun assign_free :: "(nat \<Rightarrow> double) \<Rightarrow> string list \<Rightarrow> Manager \<Rightarrow> nat \<Rightarrow> exn option \<times> Manager \<times> nat" where
  "assign_free now [] m assigned = (None, m, assigned)"
| "assign_free now (worker # ws) m assigned =
     (case get_assignment now m of
        (Inl e, m1) \<Rightarrow> (Some e, m1, assigned)
      | (Inr assignment, m1) \<Rightarrow>
          (case send_assignment now assignment worker m1 of
             (Some e, m2) \<Rightarrow> (Some e, m2, assigned)
           | (None, m2) \<Rightarrow> assign_free now ws m2 (assigned + 1)))"

text \<open>
  \<^verbatim>\<open>ProblemState.save()\<close>. The argument is what \<^verbatim>\<open>client.write_data\<close> does; the blob
  itself is kept by the store, which is not modelled.
\<close>

definition save :: "exn + unit \<Rightarrow> exn + bool" where
  "save resp =
     (case resp of
        Inr u \<Rightarrow> Inr True
      | Inl e \<Rightarrow> (if e = RegistryError then Inr False else Inl e))"

text \<open>
  The body of the \<^verbatim>\<open>while\<close> loop of \<^verbatim>\<open>Manager.do_work\<close>: drain the results, read the
  worker role, assign to every free worker, save. \<open>read\<close> and \<open>write\<close> are what the
  store does at \<^verbatim>\<open>read_role\<close> and \<^verbatim>\<open>write_data\<close>. The subtraction
  \<^verbatim>\<open>active_players() - busy_workers.keys()\<close> raises \<^verbatim>\<open>TypeError\<close> when the left
  operand is \<^verbatim>\<open>None\<close>. The loop of \<^verbatim>\<open>do_work\<close> has no handler: whatever is raised
  here leaves \<^verbatim>\<open>do_work\<close>.
\<close>

definition do_work_iteration ::
  "(nat \<Rightarrow> double) \<Rightarrow> exn + (string \<times> int) list \<Rightarrow> exn + unit \<Rightarrow> Manager \<Rightarrow> nat
     \<Rightarrow> exn option \<times> Manager \<times> nat" where
  "do_work_iteration now read write m assigned =
     (let m1 = recv_results m
      in case active_players read of
           Inl e \<Rightarrow> (Some e, m1, assigned)
         | Inr None \<Rightarrow> (Some TypeError, m1, assigned)
         | Inr (Some players) \<Rightarrow>
             (let free_workers = filter (\<lambda>w. w \<notin> set (map fst (busy_workers (problem m1)))) players
              in case assign_free now free_workers m1 assigned of
                   (Some e, m2, n) \<Rightarrow> (Some e, m2, n)
                 | (None, m2, n) \<Rightarrow>
                     (case save write of
                        Inl e \<Rightarrow> (Some e, m2, n)
                      | Inr ok \<Rightarrow>
                          (None, (if ok then m2 else m2\<lparr>stdout := stdout m2 @ [Store_error]\<rparr>), n))))"

section \<open>samples/manager\_workers.py: the worker\<close>

text \<open>
  The body of the \<^verbatim>\<open>while\<close> loop of \<^verbatim>\<open>Worker.do_work\<close> for the worker called \<open>nm\<close>,
  the last argument being \<^verbatim>\<open>solved\<close>. \<^verbatim>\<open>recv\<close> waits at most 0.4 seconds: with no
  datagram it raises \<^verbatim>\<open>socket.timeout\<close>, the only exception caught. The loop over
  \<^verbatim>\<open>range(lower, higher)\<close> counts its length. \<^verbatim>\<open>len(players)\<close> raises
  \<^verbatim>\<open>TypeError\<close> when \<^verbatim>\<open>players\<close> is \<^verbatim>\<open>None\<close>.
\<close>

definition worker_iteration ::
  "exn + (string \<times> int) list \<Rightarrow> string \<Rightarrow> udp_socket \<Rightarrow> nat \<Rightarrow> exn option \<times> udp_socket \<times> nat" where
  "worker_iteration read nm s solved =
     (case inbox s of
        [] \<Rightarrow> (None, s, solved)
      | d # ds \<Rightarrow>
          (let msg = take 1024 d; s1 = s\<lparr>inbox := ds\<rparr>
           in if length msg > 0 then
                (case decode msg of
                   Inl e \<Rightarrow> (Some e, s1, solved)
                 | Inr payload \<Rightarrow>
                     (case parse_assignment payload of
                        Inl e \<Rightarrow> (Some e, s1, solved)
                      | Inr (lower, higher) \<Rightarrow>
                          (let count = (if lower < higher then higher - lower else 0)
                           in case active_players read of
                                Inl e \<Rightarrow> (Some e, s1, solved)
                              | Inr None \<Rightarrow> (Some TypeError, s1, solved)
                              | Inr (Some players) \<Rightarrow>
                                  (if length players = 1 then
                                     (case py_int (hd players) of
                                        None \<Rightarrow> (Some ValueError, s1, solved)
                                      | Some manager_port \<Rightarrow>
                                          (case (str_int lower, str_int higher, str_int count) of
                                             (Inr l, Inr h, Inr c) \<Rightarrow>
                                               (if manager_port < 0 \<or> 65535 < manager_port
                                                then (Some OverflowError, s1, solved)
                                                else
                                                  (let message = l @ '','' @ h @ '','' @ c @ '','' @ nm
                                                   in (None,
                                                       s1\<lparr>outbox := outbox s1 @ [(message, manager_port)]\<rparr>,
                                                       solved + 1)))
                                           | _ \<Rightarrow> (Some ValueError, s1, solved)))
                                   else (None, s1, solved)))))
              else (None, s1, solved)))"

text \<open>
  Entry number \<open>i\<close> of \<^verbatim>\<open>pending\<close> is stalled when the scan reaches it: its timestamp
  plus the waiting time, added as floats, lies before the reading of the clock made for
  it.
\<close>

definition stalled_at :: "(nat \<Rightarrow> double) \<Rightarrow> Manager \<Rightarrow> nat \<Rightarrow> bool" where
  "stalled_at now m i =
     (float_add (snd (pending (problem m) ! i)) (resp_wait_time m)
        < real_of_double (now (clock_reads m + i)))"

subsection \<open>One pass over the free workers\<close>

text \<open>The payloads of the datagrams sent between two states of the manager, in order.\<close>

definition sent_payloads :: "Manager \<Rightarrow> Manager \<Rightarrow> string list" where
  "sent_payloads m m' = map fst (drop (length (outbox (sock m))) (outbox (sock m')))"

text \<open>
  The invariant of a pass that began at reading \<open>k0\<close> of the clock, \<open>S\<close> being the
  payloads sent so far: the keys of \<^verbatim>\<open>pending\<close> are payloads of ranges, each once,
  and every payload sent is the key of an entry whose timestamp was read during the pass
  and belongs to a range that ends at or below \<^verbatim>\<open>next\<close>.
\<close>

definition pass_inv :: "(nat \<Rightarrow> double) \<Rightarrow> nat \<Rightarrow> string set \<Rightarrow> Manager \<Rightarrow> bool" where
  "pass_inv now k0 S m \<longleftrightarrow>
     k0 \<le> clock_reads m
     \<and> distinct (map fst (pending (problem m)))
     \<and> (\<forall>key\<in>set (map fst (pending (problem m))). \<exists>a. key = range_message a)
     \<and> (\<forall>msg\<in>S. \<exists>a i. msg = range_message a \<and> snd a \<le> next (problem m)
            \<and> k0 \<le> i \<and> i < clock_reads m
            \<and> map_of (pending (problem m)) msg = Some (now i))"

section \<open>Example states\<close>

definition manager_example :: Manager where
  "manager_example =
     \<lparr> resp_wait_time = double_of_int 1, assignment_range = 1000,
       problem = \<lparr> next = 2000, pending = [(''0,1000'', double_of_int 5), (''1000,2000'', double_of_int 1)],
                   busy_workers = [(''7001'', ''0,1000''), (''7002'', ''1000,2000'')],
                   finished = 0 \<rparr>,
       sock = \<lparr> inbox = [], outbox = [], wouldblock = 35 \<rparr>, clock_reads = 0, stdout = [] \<rparr>"

definition manager_unrecorded :: Manager where
  "manager_unrecorded =
     \<lparr> resp_wait_time = double_of_int 1, assignment_range = 10,
       problem = \<lparr> next = 20, pending = [(''0,10'', double_of_int 5), (''10,20'', double_of_int 5)],
                   busy_workers = [(''7002'', ''10,20'')], finished = 0 \<rparr>,
       sock = \<lparr> inbox = [''0,10,10,7001'', ''10,20,10,7002''], outbox = [], wouldblock = 35 \<rparr>,
       clock_reads = 0, stdout = [] \<rparr>"

definition manager_duplicates :: Manager where
  "manager_duplicates =
     \<lparr> resp_wait_time = double_of_int 1, assignment_range = 10,
       problem = \<lparr> next = 10, pending = [(''0,10'', double_of_int 5)],
                   busy_workers = [(''7001'', ''0,10''), (''7002'', ''0,10'')], finished = 0 \<rparr>,
       sock = \<lparr> inbox = [''0,10,10,7001'', ''0,10,10,7002'', ''0,10,10,7001''], outbox = [],
                wouldblock = 35 \<rparr>,
       clock_reads = 0, stdout = [] \<rparr>"

definition manager_first_unrecorded :: Manager where
  "manager_first_unrecorded =
     \<lparr> resp_wait_time = double_of_int 1, assignment_range = 10,
       problem = \<lparr> next = 10, pending = [(''0,10'', double_of_int 5)],
                   busy_workers = [(''7002'', ''0,10'')], finished = 0 \<rparr>,
       sock = \<lparr> inbox = [''0,10,10,7001'', ''0,10,10,7001''], outbox = [], wouldblock = 35 \<rparr>,
       clock_reads = 0, stdout = [] \<rparr>"

definition worker_socket_example :: udp_socket where
  "worker_socket_example = \<lparr> inbox = [''0,10''], outbox = [], wouldblock = 35 \<rparr>"

definition manager_stalled :: Manager where
  "manager_stalled =
     \<lparr> resp_wait_time = double_of_int 1, assignment_range = 1000,
       problem = \<lparr> next = 1000, pending = [(''0,1000'', double_of_int 0)],
                   busy_workers = [(''7003'', ''0,1000'')], finished = 0 \<rparr>,
       sock = \<lparr> inbox = [], outbox = [], wouldblock = 35 \<rparr>, clock_reads = 0, stdout = [] \<rparr>"

section \<open>Properties of the Role handle\<close>

text \<open>
  C1. When the store call of \<^verbatim>\<open>release()\<close> raises, \<^verbatim>\<open>release()\<close> does not return
  false: the handler raises \<^verbatim>\<open>UnboundLocalError\<close>, which propagates to the caller.
  The maintain flag has been cleared by then, whatever the store answers.
\<close>

theorem release_store_failure_raises:
  "fst (release (Inl e) h) = Inl (UnboundLocalError ''num_attempts'')
   \<and> fst (release (Inl e) h) \<noteq> Inr False
   \<and> \<not> to_maintain_role (role (snd (release resp h)))"
  by (simp add: release_def Let_def split: sum.splits)

subsection \<open>What the renewal thread can change\<close>

lemma renewal_attempt_raises:
  "fst (renewal_attempt resp h) = Inl (AttributeError ''instance_name'')"
  by (simp add: renewal_attempt_def Role_getattr_def Role_methods_def Let_def)

lemma renewal_attempt_keeps:
  "role (snd (renewal_attempt resp h)) = role h \<and> calls (snd (renewal_attempt resp h)) = calls h
   \<and> threads (snd (renewal_attempt resp h)) = threads h"
  by (simp add: renewal_attempt_def Role_getattr_def Role_methods_def Let_def)

lemma renewal_loop_keeps:
  "role (renewal_loop n resp h) = role h \<and> calls (renewal_loop n resp h) = calls h
   \<and> threads (renewal_loop n resp h) = threads h"
proof (induction n arbitrary: h)
  case 0
  show ?case by simp
next
  case (Suc n)
  obtain x h1 where att: "renewal_attempt resp h = (x, h1)"
    by (cases "renewal_attempt resp h")
  have x: "x = Inl (AttributeError ''instance_name'')"
    using renewal_attempt_raises [of resp h] att by simp
  have h1: "role h1 = role h \<and> calls h1 = calls h \<and> threads h1 = threads h"
    using renewal_attempt_keeps [of resp h] att by simp
  show ?case
    using Suc.IH [of h1] att x h1 by simp
qed

lemma renewal_loop_released:
  "\<not> to_maintain_role (role h) \<Longrightarrow> renewal_loop n resp h = h"
  by (cases n) simp_all

lemma thread_step_keeps:
  "role (snd (thread_step resp p h)) = role h \<and> calls (snd (thread_step resp p h)) = calls h
   \<and> threads (snd (thread_step resp p h)) = threads h"
  by (cases p) (simp_all add: thread_step_def renewal_loop_keeps)

lemma thread_step_released:
  "\<not> to_maintain_role (role h) \<Longrightarrow> snd (thread_step resp p h) = h"
  by (cases p) (simp_all add: thread_step_def renewal_loop_released)

lemma tick_keeps:
  "role (tick t resp h) = role h \<and> calls (tick t resp h) = calls h"
proof (cases "t < length (threads h)")
  case False
  then show ?thesis by (simp add: tick_def)
next
  case True
  obtain p' h' where st: "thread_step resp (threads h ! t) h = (p', h')"
    by (cases "thread_step resp (threads h ! t) h")
  have "role h' = role h \<and> calls h' = calls h"
    using thread_step_keeps [of resp "threads h ! t" h] st by simp
  then show ?thesis
    using True st by (simp add: tick_def)
qed

lemma tick_released:
  assumes "\<not> to_maintain_role (role h)"
  shows "renewal_attempts (tick t resp h) = renewal_attempts h"
proof (cases "t < length (threads h)")
  case False
  then show ?thesis by (simp add: tick_def)
next
  case True
  obtain p' h' where st: "thread_step resp (threads h ! t) h = (p', h')"
    by (cases "thread_step resp (threads h ! t) h")
  have "h' = h"
    using thread_step_released [OF assms, of resp "threads h ! t"] st by simp
  then show ?thesis
    using True st by (simp add: tick_def)
qed

lemma run_ticks_released:
  "list_all is_tick es \<Longrightarrow> \<not> to_maintain_role (role h) \<Longrightarrow>
     calls (run es h) = calls h \<and> renewal_attempts (run es h) = renewal_attempts h
     \<and> role (run es h) = role h"
proof (induction es arbitrary: h)
  case Nil
  show ?case by simp
next
  case (Cons e es)
  from Cons.prems(1) obtain t resp where e: "e = Tick t resp"
    by (cases e) simp_all
  have keep: "role (tick t resp h) = role h \<and> calls (tick t resp h) = calls h"
    by (rule tick_keeps)
  have att: "renewal_attempts (tick t resp h) = renewal_attempts h"
    using Cons.prems(2) by (rule tick_released)
  have "\<not> to_maintain_role (role (tick t resp h))"
    using keep Cons.prems(2) by simp
  with Cons.IH [of "tick t resp h"] Cons.prems(1) keep att e show ?case
    by simp
qed

lemma release_clears_flag: "\<not> to_maintain_role (role (snd (release resp h)))"
  by (simp add: release_def Let_def split: sum.splits)

text \<open>
  C2. Every pass of a renewal thread through its \<^verbatim>\<open>try\<close> block raises
  \<^verbatim>\<open>AttributeError\<close> for \<^verbatim>\<open>instance_name\<close> before any request is sent, the retry
  handler swallows it, and so no step of a renewal thread changes the recorded
  expiration time or reaches the store, whatever the store would have answered.
\<close>

theorem renewal_never_updates_expiration:
  "fst (renewal_attempt resp h) = Inl (AttributeError ''instance_name'')
   \<and> calls (snd (renewal_attempt resp h)) = calls h
   \<and> expiration_time_msecs (role (renewal_loop n resp h)) = expiration_time_msecs (role h)
   \<and> expiration_time_msecs (role (exec (Tick t resp) h)) = expiration_time_msecs (role h)
   \<and> calls (exec (Tick t resp) h) = calls h"
  by (simp add: renewal_attempt_raises renewal_attempt_keeps renewal_loop_keeps tick_keeps)

text \<open>
  C3. \<^verbatim>\<open>take(); release(); take()\<close> with a playtime of 10 seconds, the second
  \<^verbatim>\<open>take()\<close> coming while the first renewal thread is still in its first sleep: two
  renewal threads are alive for the handle, and both are still alive after each has gone
  once round its loop. With a playtime of 1 second the only renewal thread ends in
  \<^verbatim>\<open>time.sleep(-1)\<close>, and a later successful \<^verbatim>\<open>take()\<close> starts no other: none runs.
\<close>

theorem take_release_take_two_tasks:
  "running_tasks (run [Take (Inr 10000), Release (Inr ()), Take (Inr 20000)]
       (handle_init ''m1'' ''/writer'' 1 10)) = 2
   \<and> running_tasks (run [Take (Inr 10000), Release (Inr ()), Take (Inr 20000),
        Tick 0 (Inr 28000), Tick 1 (Inr 28000), Tick 0 (Inr 28000), Tick 1 (Inr 28000),
        Tick 0 (Inr 28000), Tick 1 (Inr 28000), Tick 0 (Inr 28000), Tick 1 (Inr 28000)]
       (handle_init ''m1'' ''/writer'' 1 10)) = 2
   \<and> running_tasks (run [Take (Inr 1000), Tick 0 (Inr 2000), Take (Inr 2000)]
       (handle_init ''m1'' ''/writer'' 1 1)) = 0"
  by (simp add: running_tasks_def handle_init_def Role_init_def Role_take_def release_def tick_def
      thread_step_def sleep_then_def retake_interval_def num_retries_def alive_def
      renewal_attempt_def Role_getattr_def Role_methods_def Let_def)

text \<open>
  C8. Once \<^verbatim>\<open>release()\<close> has returned or raised, and until the owner calls
  \<^verbatim>\<open>take()\<close> again, no step of any renewal thread sends a request to the store or even
  enters the \<^verbatim>\<open>try\<close> block: the flag stays cleared, and both the outer and the inner
  loop test it, the inner one under the lock. This holds wherever the threads stood when
  \<^verbatim>\<open>release()\<close> ran, in particular for one that had passed the outer test and was
  waiting for the lock.
\<close>

theorem no_renewal_after_release:
  assumes "list_all is_tick es"
  shows "calls (run es (snd (release resp h))) = calls (snd (release resp h))
         \<and> renewal_attempts (run es (snd (release resp h))) = renewal_attempts h
         \<and> \<not> to_maintain_role (role (run es (snd (release resp h))))"
proof -
  let ?h = "snd (release resp h)"
  have flag: "\<not> to_maintain_role (role ?h)"
    by (rule release_clears_flag)
  have att: "renewal_attempts ?h = renewal_attempts h"
    by (simp add: release_def Let_def split: sum.splits)
  from run_ticks_released [OF assms flag] flag att show ?thesis
    by simp
qed

theorem no_renewal_after_release_witness:
  "list_all is_tick [Tick 0 (Inr 28000), Tick 0 (Inr 28000), Tick 0 (Inr 28000)]
   \<and> threads (run [Take (Inr 10000), Tick 0 (Inr 18000), Tick 0 (Inr 18000)]
        (handle_init ''m1'' ''/writer'' 1 10)) = [At_lock]
   \<and> calls (run [Tick 0 (Inr 28000), Tick 0 (Inr 28000), Tick 0 (Inr 28000)]
        (snd (release (Inr ())
          (run [Take (Inr 10000), Tick 0 (Inr 18000), Tick 0 (Inr 18000)]
            (handle_init ''m1'' ''/writer'' 1 10)))))
      = [Take_role ''/writer'' (PyStr ''m1'') 10 1, Release_role ''/writer'' ''m1'']
   \<and> renewal_attempts (run [Tick 0 (Inr 28000), Tick 0 (Inr 28000), Tick 0 (Inr 28000)]
        (snd (release (Inr ())
          (run [Take (Inr 10000), Tick 0 (Inr 18000), Tick 0 (Inr 18000)]
            (handle_init ''m1'' ''/writer'' 1 10))))) = 0"
proof -
  have ticks: "list_all is_tick [Tick 0 (Inr 28000), Tick 0 (Inr 28000), Tick 0 (Inr 28000)]"
    by simp
  have before: "run [Take (Inr 10000), Tick 0 (Inr 18000), Tick 0 (Inr 18000)]
        (handle_init ''m1'' ''/writer'' 1 10)
      = \<lparr> role = \<lparr> name = ''m1'', role_path = ''/writer'', max_players = 1, playtime_secs = 10,
                   expiration_time_msecs = 10000, to_maintain_role = True,
                   maintenance_thread = Some 0 \<rparr>,
          threads = [At_lock],
          calls = [Take_role ''/writer'' (PyStr ''m1'') 10 1], renewal_attempts = 0 \<rparr>"
    by (simp add: handle_init_def Role_init_def Role_take_def tick_def thread_step_def
        sleep_then_def retake_interval_def num_retries_def Let_def)
  have rel: "calls (snd (release (Inr ())
          (run [Take (Inr 10000), Tick 0 (Inr 18000), Tick 0 (Inr 18000)]
            (handle_init ''m1'' ''/writer'' 1 10))))
      = [Take_role ''/writer'' (PyStr ''m1'') 10 1, Release_role ''/writer'' ''m1'']"
    unfolding before by (simp add: release_def Let_def)
  from no_renewal_after_release [OF ticks, of "Inr ()"
      "run [Take (Inr 10000), Tick 0 (Inr 18000), Tick 0 (Inr 18000)]
        (handle_init ''m1'' ''/writer'' 1 10)"]
  show ?thesis
    using ticks rel before by simp
qed

section \<open>Properties of the manager and the worker\<close>

subsection \<open>Printing and reading back an integer\<close>

lemma digit_char_code: "d < 10 \<Longrightarrow> (of_char (digit_char d) :: nat) = 48 + d"
proof -
  assume "d < 10"
  then have "d \<in> {0, 1, 2, 3, 4, 5, 6, 7, 8, 9}" by auto
  then show ?thesis
    by (auto simp: digit_char_def)
qed

lemma is_digit_code: "is_digit c \<Longrightarrow> \<exists>d<10. (of_char c :: nat) = 48 + d"
  by (auto simp: is_digit_def digit_char_code)

lemma nat_digits_digits: "nat_digits n \<noteq> [] \<and> list_all is_digit (nat_digits n)"
proof (induction n rule: nat_digits.induct)
  case (1 n)
  show ?case
  proof (cases "n < 10")
    case True
    then show ?thesis
      by (auto simp: nat_digits.simps [of n] is_digit_def)
  next
    case False
    have "n mod 10 < 10" by simp
    then have "is_digit (digit_char (n mod 10))"
      unfolding is_digit_def by blast
    with False "1.IH" show ?thesis
      by (simp add: nat_digits.simps [of n])
  qed
qed

lemma dec_digits_digit:
  "d < 10 \<Longrightarrow> dec_digits acc (of_char (digit_char d) # ys) = dec_digits (acc * 10 + d) ys"
  by (simp add: digit_char_code digit_val_def)

lemma dec_nat_digits:
  "dec_digits acc (map of_char (nat_digits n) @ ys)
     = dec_digits (acc * 10 ^ length (nat_digits n) + n) ys"
proof (induction n arbitrary: acc ys rule: nat_digits.induct)
  case (1 n)
  show ?case
  proof (cases "n < 10")
    case True
    then show ?thesis
      by (simp add: nat_digits.simps [of n] dec_digits_digit del: dec_digits.simps)
  next
    case False
    have m: "n mod 10 < 10" by simp
    have "dec_digits acc (map of_char (nat_digits n) @ ys)
        = dec_digits acc (map of_char (nat_digits (n div 10)) @ (of_char (digit_char (n mod 10)) # ys))"
      using False by (simp add: nat_digits.simps [of n])
    also have "\<dots> = dec_digits (acc * 10 ^ length (nat_digits (n div 10)) + n div 10)
                      (of_char (digit_char (n mod 10)) # ys)"
      using False by (rule "1.IH")
    also have "\<dots> = dec_digits ((acc * 10 ^ length (nat_digits (n div 10)) + n div 10) * 10 + n mod 10) ys"
      using m by (rule dec_digits_digit)
    also have "(acc * 10 ^ length (nat_digits (n div 10)) + n div 10) * 10 + n mod 10
        = acc * 10 ^ length (nat_digits n) + n"
      using False by (simp add: nat_digits.simps [of n] algebra_simps)
    finally show ?thesis .
  qed
qed

lemma nat_digits_inj: "nat_digits n = nat_digits m \<Longrightarrow> n = m"
proof -
  assume "nat_digits n = nat_digits m"
  then have "dec_digits 0 (map of_char (nat_digits n) @ []) = dec_digits 0 (map of_char (nat_digits m) @ [])"
    by simp
  then show "n = m"
    by (simp only: dec_nat_digits) simp
qed

lemma digit_codes:
  assumes "c \<in> set (nat_digits n)"
  shows "(of_char c :: nat) \<noteq> 95 \<and> (of_char c :: nat) < 127 \<and> \<not> is_space (of_char c)
         \<and> digit_val (of_char c) \<noteq> None \<and> (of_char c :: nat) \<noteq> 45 \<and> (of_char c :: nat) \<noteq> 43
         \<and> c \<noteq> CHR '','' \<and> c \<noteq> CHR ''-''"
proof -
  have "is_digit c"
    using assms nat_digits_digits [of n] by (simp add: list_all_iff)
  then obtain d where d: "d < 10" "c = digit_char d"
    unfolding is_digit_def by blast
  from d(1) have "d \<in> {0, 1, 2, 3, 4, 5, 6, 7, 8, 9}" by auto
  then show ?thesis
    unfolding d(2) by (auto simp: digit_char_def is_space_def digit_val_def)
qed

lemma unsigned_nat_digits:
  "unsigned (map of_char (nat_digits n))
     = (if length (nat_digits n) \<le> max_str_digits then Some n else None)"
proof -
  obtain c cs where cs: "nat_digits n = c # cs"
    using nat_digits_digits [of n] by (cases "nat_digits n") auto
  have c: "digit_val (of_char c) \<noteq> None"
    using digit_codes [of c n] cs by simp
  have "filter (\<lambda>c. c \<noteq> (95::nat)) (map of_char (nat_digits n)) = map of_char (nat_digits n)"
    using digit_codes [of _ n] by (simp add: filter_id_conv)
  then have len: "length (filter (\<lambda>c. c \<noteq> (95::nat)) (map of_char (nat_digits n))) = length (nat_digits n)"
    by simp
  have "dec_digits 0 (map of_char (nat_digits n)) = Some n"
    using dec_nat_digits [of 0 n "[]"] by simp
  with c len show ?thesis
    unfolding unsigned_def using cs by (auto split: list.splits)
qed

lemma strip_id:
  assumes "s \<noteq> []" "\<not> is_space (hd s)" "\<not> is_space (last s)"
  shows "strip s = s"
proof -
  have a: "dropWhile is_space s = s"
    using assms(1,2) by (cases s) simp_all
  have "rev s \<noteq> []" "\<not> is_space (hd (rev s))"
    using assms(1,3) by (simp_all add: hd_rev)
  then have "dropWhile is_space (rev s) = rev s"
    by (cases "rev s") simp_all
  with a show ?thesis
    by (simp add: strip_def)
qed

lemma ascii_text:
  "\<forall>b\<in>set bs. b < 127 \<Longrightarrow>
     utf8_valid bs \<and> code_points bs = bs \<and> those (map to_ascii bs) = Some bs"
  by (induction bs) (simp_all add: lead_length_def utf8_scalar_def to_ascii_def)

lemma py_str_codes:
  "\<forall>b\<in>set (map of_char (py_str i)). (b :: nat) < 127"
  using digit_codes by (auto simp: py_str_def)

lemma py_int_ascii:
  "\<forall>b\<in>set (map of_char s). (b :: nat) < 127 \<Longrightarrow> py_int s = parse_long (map of_char s)"
  using ascii_text [of "map of_char s"] by (simp add: py_int_def Let_def)

lemma py_int_py_str:
  "py_int (py_str i) = (if length (nat_digits (nat \<bar>i\<bar>)) \<le> max_str_digits then Some i else None)"
proof -
  have p: "py_int (py_str i) = parse_long (map of_char (py_str i))"
    using py_str_codes by (rule py_int_ascii)
  define ds where "ds = nat_digits (nat \<bar>i\<bar>)"
  have ne: "ds \<noteq> []" and dig: "\<And>c. c \<in> set ds \<Longrightarrow> \<not> is_space (of_char c)
      \<and> (of_char c :: nat) \<noteq> 45 \<and> (of_char c :: nat) \<noteq> 43"
    using nat_digits_digits [of "nat \<bar>i\<bar>"] digit_codes [of _ "nat \<bar>i\<bar>"] by (auto simp: ds_def)
  have la: "\<not> is_space (of_char (last ds))" and hd: "\<not> is_space (of_char (hd ds))"
    "(of_char (hd ds) :: nat) \<noteq> 45" "(of_char (hd ds) :: nat) \<noteq> 43"
    using ne dig [of "last ds"] dig [of "hd ds"] by simp_all
  have u: "unsigned (map of_char ds) = (if length ds \<le> max_str_digits then Some (nat \<bar>i\<bar>) else None)"
    unfolding ds_def by (rule unsigned_nat_digits)
  show ?thesis
  proof (cases "i < 0")
    case True
    then have s: "map of_char (py_str i) = 45 # map of_char ds"
      by (simp add: py_str_def ds_def)
    have "strip (45 # map of_char ds) = 45 # map of_char ds"
      using ne la by (intro strip_id) (simp_all add: is_space_def last_map)
    then have "parse_long (45 # map of_char ds) = map_option (\<lambda>n. - int n) (unsigned (map of_char ds))"
      by (simp add: parse_long_def)
    with True u show ?thesis
      unfolding p s by (simp add: ds_def)
  next
    case False
    then have s: "map of_char (py_str i) = map of_char ds"
      by (simp add: py_str_def ds_def)
    obtain c cs where cs: "ds = c # cs" using ne by (cases ds) auto
    have "strip (map of_char ds) = map of_char ds"
      using ne la hd by (intro strip_id) (simp_all add: last_map hd_map)
    then have "parse_long (map of_char ds) = map_option int (unsigned (map of_char ds))"
      using hd cs by (simp add: parse_long_def)
    with False u show ?thesis
      unfolding p s by (simp add: ds_def)
  qed
qed

lemma py_str_inj: "py_str i = py_str j \<Longrightarrow> i = j"
proof -
  assume eq: "py_str i = py_str j"
  have nd: "\<And>n. hd (nat_digits n) \<noteq> CHR ''-''"
    using nat_digits_digits digit_codes by (metis list.set_sel(1))
  have ne: "\<And>n. nat_digits n \<noteq> []"
    using nat_digits_digits by simp
  consider "i < 0" "j < 0" | "0 \<le> i" "0 \<le> j" | "i < 0" "0 \<le> j" | "0 \<le> i" "j < 0"
    by linarith
  then show "i = j"
  proof cases
    case 1
    with eq have "nat_digits (nat (- i)) = nat_digits (nat (- j))" by (simp add: py_str_def)
    then have "nat (- i) = nat (- j)" by (rule nat_digits_inj)
    with 1 show ?thesis by simp
  next
    case 2
    with eq have "nat_digits (nat i) = nat_digits (nat j)" by (simp add: py_str_def)
    then have "nat i = nat j" by (rule nat_digits_inj)
    with 2 show ?thesis by simp
  next
    case 3
    with eq have "CHR ''-'' # nat_digits (nat (- i)) = nat_digits (nat j)" by (simp add: py_str_def)
    then have "hd (nat_digits (nat j)) = CHR ''-''" by (metis list.sel(1))
    with nd show ?thesis by blast
  next
    case 4
    with eq have "nat_digits (nat i) = CHR ''-'' # nat_digits (nat (- j))" by (simp add: py_str_def)
    then have "hd (nat_digits (nat i)) = CHR ''-''" by (metis list.sel(1))
    with nd show ?thesis by blast
  qed
qed

lemma py_str_no_comma: "CHR '','' \<notin> set (py_str i)"
  using digit_codes by (auto simp: py_str_def)

lemma split_comma_nonempty: "split_comma s \<noteq> []"
  by (induction s) (auto split: list.splits)

lemma split_comma_plain: "CHR '','' \<notin> set s \<Longrightarrow> split_comma s = [s]"
  by (induction s) auto

lemma split_comma_append:
  "CHR '','' \<notin> set a \<Longrightarrow> split_comma (a @ CHR '','' # b) = a # split_comma b"
  by (induction a) auto

lemma split_comma_range_message: "split_comma (range_message a) = [py_str (fst a), py_str (snd a)]"
  using py_str_no_comma by (simp add: range_message_def split_comma_append split_comma_plain)

lemma range_message_inj: "range_message a = range_message b \<Longrightarrow> a = b"
proof -
  assume "range_message a = range_message b"
  then have "split_comma (range_message a) = split_comma (range_message b)" by simp
  then have "py_str (fst a) = py_str (fst b)" "py_str (snd a) = py_str (snd b)"
    by (simp_all add: split_comma_range_message)
  then show "a = b"
    by (simp add: py_str_inj prod_eq_iff)
qed

lemma parse_assignment_range_message_only:
  "parse_assignment (range_message a) = Inr b \<Longrightarrow> b = a"
  by (auto simp: parse_assignment_def split_comma_range_message py_int_py_str
      split: option.splits if_splits)

lemma join_range_text: "join_range a = Inr key \<Longrightarrow> key = range_message a"
  by (auto simp: join_range_def split: sum.splits)

lemma parse_assignment_join_range:
  "join_range a = Inr key \<Longrightarrow> parse_assignment key = Inr a"
proof -
  assume j: "join_range a = Inr key"
  then have key: "key = range_message a" by (rule join_range_text)
  from j have "length (nat_digits (nat \<bar>fst a\<bar>)) \<le> max_str_digits"
    "length (nat_digits (nat \<bar>snd a\<bar>)) \<le> max_str_digits"
    by (auto simp: join_range_def str_int_def split: sum.splits if_splits)
  then show ?thesis
    unfolding key by (simp add: parse_assignment_def split_comma_range_message py_int_py_str)
qed

subsection \<open>Float addition\<close>

lemma round_half_even_int: "round_half_even (of_int k) = k"
  by (simp add: round_half_even_def)

lemma round_half_even_bounds: "\<lfloor>y\<rfloor> \<le> round_half_even y \<and> round_half_even y \<le> \<lfloor>y\<rfloor> + 1"
  by (simp add: round_half_even_def Let_def)

lemma round_half_even_mono:
  assumes "x \<le> y"
  shows "round_half_even x \<le> round_half_even y"
proof -
  have "\<lfloor>x\<rfloor> \<le> \<lfloor>y\<rfloor>" using assms by (rule floor_mono)
  then consider "\<lfloor>x\<rfloor> < \<lfloor>y\<rfloor>" | "\<lfloor>x\<rfloor> = \<lfloor>y\<rfloor>" by linarith
  then show ?thesis
  proof cases
    case 1
    with round_half_even_bounds [of x] round_half_even_bounds [of y] show ?thesis by linarith
  next
    case 2
    with assms show ?thesis
      by (auto simp: round_half_even_def Let_def)
  qed
qed

lemma powr_int_succ: "2 powr (real_of_int E + 1) = 2 powi (E + 1)"
  using powr_real_of_int' [of 2 "E + 1"] by simp

lemma binade:
  assumes "x \<noteq> 0"
  shows "2 powi \<lfloor>log 2 \<bar>x\<bar>\<rfloor> \<le> \<bar>x\<bar> \<and> \<bar>x\<bar> < 2 powi (\<lfloor>log 2 \<bar>x\<bar>\<rfloor> + 1)"
proof -
  have pos: "0 < \<bar>x\<bar>" using assms by simp
  have a: "2 powr (log 2 \<bar>x\<bar>) = \<bar>x\<bar>" using pos by simp
  have "2 powr (of_int \<lfloor>log 2 \<bar>x\<bar>\<rfloor>) \<le> 2 powr (log 2 \<bar>x\<bar>)"
    by (rule powr_mono) simp_all
  moreover have "2 powr (log 2 \<bar>x\<bar>) < 2 powr (of_int (\<lfloor>log 2 \<bar>x\<bar>\<rfloor> + 1))"
    by (rule powr_less_mono) simp_all
  ultimately show ?thesis
    using a by (simp add: powr_real_of_int' powr_int_succ)
qed

lemma floor_log2_eq:
  assumes "2 powi E \<le> x" "x < 2 powi (E + 1)"
  shows "\<lfloor>log 2 x\<rfloor> = E"
proof -
  have "0 < (2::real) powi E" by simp
  with assms(1) have pos: "0 < x" by linarith
  have "of_int E \<le> log 2 x"
    using assms(1) pos by (simp add: le_log_iff powr_real_of_int')
  moreover have "log 2 x < of_int (E + 1)"
    using assms(2) pos by (simp add: log_less_iff powr_int_succ)
  ultimately show ?thesis by linarith
qed

lemma two_powi_less_iff: "((2::real) powi a < 2 powi b) = (a < b)"
proof -
  have "(2::real) powi a = 2 powr (of_int a)" "(2::real) powi b = 2 powr (of_int b)"
    by (simp_all add: powr_real_of_int')
  then show ?thesis by simp
qed

lemma two_powi_split:
  assumes "b \<le> a"
  shows "(2::real) powi a = of_int (2 ^ nat (a - b)) * 2 powi b"
proof -
  define j where "j = nat (a - b)"
  have a: "a = int j + b"
    using assms by (simp add: j_def)
  have "(2::real) powi (int j + b) = 2 powi (int j) * 2 powi b"
    by (rule power_int_add) simp
  also have "(2::real) powi (int j) = 2 ^ j"
    by (rule power_int_of_nat)
  finally have "(2::real) powi a = 2 ^ j * 2 powi b"
    by (simp only: a [symmetric])
  then show ?thesis
    by (simp add: j_def)
qed

lemma double_on_grid:
  assumes m: "\<bar>m\<bar> < 2 ^ 53"
    and big: "2 powi E \<le> \<bar>of_int m * (2::real) powi e\<bar>"
  shows "\<exists>k :: int. of_int m * (2::real) powi e = of_int k * 2 powi (E - 52)"
proof -
  have pe: "0 < (2::real) powi e" by simp
  have "\<bar>of_int m * (2::real) powi e\<bar> = of_int \<bar>m\<bar> * 2 powi e"
    by (simp add: abs_mult)
  also have "\<dots> < 2 ^ 53 * 2 powi e"
  proof -
    have "(of_int \<bar>m\<bar> :: real) < 2 ^ 53"
      using m by (metis of_int_less_numeral_power_cancel_iff)
    then show ?thesis using pe by simp
  qed
  also have "\<dots> = 2 powi (53 + e)"
    by (simp add: power_int_add)
  finally have "(2::real) powi E < 2 powi (53 + e)"
    using big by simp
  then have "E < 53 + e"
    by (simp only: two_powi_less_iff)
  then have le: "E - 52 \<le> e" by simp
  have "of_int m * (2::real) powi e = of_int m * (of_int (2 ^ nat (e - (E - 52))) * 2 powi (E - 52))"
    using two_powi_split [OF le] by simp
  also have "\<dots> = of_int (m * 2 ^ nat (e - (E - 52))) * 2 powi (E - 52)"
    by simp
  finally show ?thesis by blast
qed

lemma round53_below:
  assumes d: "is_double d" and le: "d \<le> x"
  shows "d \<le> round53 x"
proof (cases "x = 0")
  case True
  with le show ?thesis by (simp add: round53_def)
next
  case False
  define E where "E = \<lfloor>log 2 \<bar>x\<bar>\<rfloor>"
  define u :: real where "u = 2 powi (E - 52)"
  have u: "0 < u" by (simp add: u_def)
  have r: "round53 x = of_int (round_half_even (x / u)) * u"
    using False by (simp add: round53_def Let_def E_def u_def)
  have bin: "2 powi E \<le> \<bar>x\<bar>" "\<bar>x\<bar> < 2 powi (E + 1)"
    using binade [OF False] by (simp_all add: E_def)
  have top: "(2::real) powi E = of_int (2 ^ 52) * u" "(2::real) powi (E + 1) = of_int (2 ^ 53) * u"
    using two_powi_split [of "E - 52" E] two_powi_split [of "E - 52" "E + 1"]
    by (simp_all add: u_def nat_add_distrib)
  have grid: "\<exists>k :: int. d = of_int k * u" if "2 powi E \<le> \<bar>d\<bar>"
  proof -
    from d obtain m e :: int where me: "\<bar>m\<bar> < 2 ^ 53" "d = of_int m * 2 powi e"
      unfolding is_double_def by blast
    from double_on_grid [OF me(1), of E e] that me(2) show ?thesis
      by (simp add: u_def)
  qed
  have step: "of_int k * u \<le> round53 x" if "of_int k * u \<le> x" for k :: int
  proof -
    have "of_int k \<le> x / u"
      using that u by (simp add: pos_le_divide_eq)
    then have "round_half_even (of_int k) \<le> round_half_even (x / u)"
      by (rule round_half_even_mono)
    then have "k \<le> round_half_even (x / u)"
      by (simp only: round_half_even_int)
    then have "(of_int k :: real) \<le> of_int (round_half_even (x / u))"
      by simp
    then show ?thesis
      unfolding r using u by simp
  qed
  show ?thesis
  proof (cases "0 < x")
    case True
    then have x: "2 powi E \<le> x" using bin(1) by simp
    show ?thesis
    proof (cases "d \<le> 2 powi E")
      case True
      have "of_int (2 ^ 52) * u \<le> round53 x"
        using x top(1) by (intro step) simp
      with True top(1) show ?thesis by simp
    next
      case False
      then have "2 powi E \<le> \<bar>d\<bar>" by simp
      from grid [OF this] obtain k :: int where "d = of_int k * u" ..
      with step [of k] le show ?thesis by simp
    qed
  next
    case neg: False
    with \<open>x \<noteq> 0\<close> have x: "x < 0" by simp
    then have xb: "x \<le> - (2 powi E)" "- (2 powi (E + 1)) < x"
      using bin by simp_all
    have "2 powi E \<le> \<bar>d\<bar>"
      using le xb(1) by linarith
    from grid [OF this] obtain k :: int where "d = of_int k * u" ..
    with step [of k] le show ?thesis by simp
  qed
qed

lemma round53_double:
  assumes "is_double d"
  shows "round53 d = d"
proof (cases "d = 0")
  case True
  then show ?thesis by (simp add: round53_def)
next
  case False
  from assms obtain m e :: int where me: "\<bar>m\<bar> < 2 ^ 53" "d = of_int m * 2 powi e"
    unfolding is_double_def by blast
  from double_on_grid [OF me(1), of "\<lfloor>log 2 \<bar>d\<bar>\<rfloor>" e] binade [OF False] me(2)
  obtain k :: int where k: "d = of_int k * 2 powi (\<lfloor>log 2 \<bar>d\<bar>\<rfloor> - 52)"
    by auto
  have "d / 2 powi (\<lfloor>log 2 \<bar>d\<bar>\<rfloor> - 52) = of_int k"
    using k by (metis nonzero_mult_div_cancel_right power_int_eq_0_iff zero_neq_numeral)
  then show ?thesis
    using False k by (simp add: round53_def Let_def round_half_even_int)
qed

lemma is_double_real_of_double: "is_double (real_of_double x)"
  using real_of_double [of x] unfolding is_double_def by blast

lemma is_double_of_int: "\<bar>n\<bar> < 2 ^ 53 \<Longrightarrow> is_double (of_int n)"
  unfolding is_double_def by (intro exI [of _ n] exI [of _ 0]) simp

lemma real_of_double_of_int: "\<bar>n\<bar> < 2 ^ 53 \<Longrightarrow> real_of_double (double_of_int n) = of_int n"
proof -
  assume n: "\<bar>n\<bar> < 2 ^ 53"
  have "\<exists>m e :: int. \<bar>m\<bar> < 2 ^ 53 \<and> - 1074 \<le> e \<and> e \<le> 971 \<and> (of_int n :: real) = of_int m * 2 powi e"
    using n by (intro exI [of _ n] exI [of _ 0]) simp
  then show ?thesis
    unfolding double_of_int_def by (intro double_of_real_inverse CollectI)
qed

lemma float_add_ints:
  assumes "\<bar>a\<bar> < 2 ^ 52" "\<bar>b\<bar> < 2 ^ 52"
  shows "float_add (double_of_int a) (double_of_int b) = of_int (a + b)"
proof -
  have s: "\<bar>a + b\<bar> < 2 ^ 53" using assms by simp
  have "float_add (double_of_int a) (double_of_int b) = round53 (of_int (a + b))"
    using assms by (simp add: float_add_def real_of_double_of_int)
  also have "\<dots> = of_int (a + b)"
    using s by (intro round53_double is_double_of_int)
  finally show ?thesis .
qed

lemma float_add_not_less:
  assumes "real_of_double b \<le> real_of_double a + real_of_double w"
  shows "\<not> float_add a w < real_of_double b"
  using round53_below [OF is_double_real_of_double assms] by (simp add: float_add_def)

lemma round53_tie: "round53 (2 ^ 31 + 1 - 1 / 2 ^ 22) = 2 ^ 31 + 1"
proof -
  let ?x = "2 ^ 31 + 1 - 1 / 2 ^ 22 :: real"
  have E: "\<lfloor>log 2 \<bar>?x\<bar>\<rfloor> = 31"
    by (rule floor_log2_eq) simp_all
  have u: "(2::real) powi (31 - 52) = 1 / 2 ^ 21"
    by (simp add: power_int_minus field_simps)
  have q: "?x / (1 / 2 ^ 21) = of_int (2 ^ 52 + 2 ^ 21 - 1) + 1 / 2"
    by simp
  have f: "\<lfloor>of_int (2 ^ 52 + 2 ^ 21 - 1) + (1 / 2 :: real)\<rfloor> = 2 ^ 52 + 2 ^ 21 - 1"
    by (rule floor_unique) simp_all
  have "round_half_even (?x / (1 / 2 ^ 21)) = 2 ^ 52 + 2 ^ 21"
    unfolding q round_half_even_def Let_def f by simp
  then have "round53 ?x = of_int (2 ^ 52 + 2 ^ 21) * (1 / 2 ^ 21)"
    unfolding round53_def Let_def E u by simp
  then show ?thesis by simp
qed

subsection \<open>The scan of pending\<close>

lemma scan_pending_found:
  "scan_pending now wait k es = (Some a, k') \<Longrightarrow>
     \<exists>i<length es. fst (es ! i) = a \<and> float_add (snd (es ! i)) wait < real_of_double (now (k + i))
        \<and> (\<forall>j<i. \<not> float_add (snd (es ! j)) wait < real_of_double (now (k + j))) \<and> k' = Suc (k + i)"
proof (induction es arbitrary: k)
  case Nil
  then show ?case by simp
next
  case (Cons e es)
  obtain a0 ts where e: "e = (a0, ts)" by (cases e)
  show ?case
  proof (cases "float_add ts wait < real_of_double (now k)")
    case True
    with Cons.prems e have "a = a0" "k' = Suc k" by simp_all
    with True e show ?thesis by (intro exI [of _ 0]) simp
  next
    case False
    with Cons.prems e have "scan_pending now wait (Suc k) es = (Some a, k')" by simp
    from Cons.IH [OF this] obtain i where i: "i < length es" "fst (es ! i) = a"
      "float_add (snd (es ! i)) wait < real_of_double (now (Suc k + i))"
      "\<forall>j<i. \<not> float_add (snd (es ! j)) wait < real_of_double (now (Suc k + j))" "k' = Suc (Suc k + i)"
      by blast
    have "\<forall>j<Suc i. \<not> float_add (snd ((e # es) ! j)) wait < real_of_double (now (k + j))"
    proof (intro allI impI)
      fix j assume "j < Suc i"
      then show "\<not> float_add (snd ((e # es) ! j)) wait < real_of_double (now (k + j))"
        using False e i(4) by (cases j) simp_all
    qed
    with i show ?thesis
      by (intro exI [of _ "Suc i"]) simp
  qed
qed

lemma scan_pending_none:
  "scan_pending now wait k es = (None, k') \<Longrightarrow>
     (\<forall>j<length es. \<not> float_add (snd (es ! j)) wait < real_of_double (now (k + j))) \<and> k' = k + length es"
proof (induction es arbitrary: k)
  case Nil
  then show ?case by simp
next
  case (Cons e es)
  obtain a0 ts where e: "e = (a0, ts)" by (cases e)
  from Cons.prems e have ns: "\<not> float_add ts wait < real_of_double (now k)"
    by (auto split: if_splits)
  with Cons.prems e have "scan_pending now wait (Suc k) es = (None, k')" by simp
  from Cons.IH [OF this]
  have ih: "\<forall>j<length es. \<not> float_add (snd (es ! j)) wait < real_of_double (now (Suc k + j))" "k' = Suc k + length es"
    by simp_all
  have "\<forall>j<length (e # es). \<not> float_add (snd ((e # es) ! j)) wait < real_of_double (now (k + j))"
  proof (intro allI impI)
    fix j assume "j < length (e # es)"
    then show "\<not> float_add (snd ((e # es) ! j)) wait < real_of_double (now (k + j))"
      using ns e ih(1) by (cases j) simp_all
  qed
  with ih(2) show ?case by simp
qed

text \<open>
  C7. \<^verbatim>\<open>_get_assignment\<close> returns the range written in the key of the first entry of
  \<^verbatim>\<open>pending\<close>, in insertion order, that is stalled when the scan reaches it; only when
  no entry is stalled does it return the new range from \<^verbatim>\<open>next\<close> to
  \<^verbatim>\<open>next + _assignment_range\<close>. A key that \<^verbatim>\<open>_send_assignment\<close> has written for a
  range is read back as that range.
\<close>

theorem get_assignment_stalled_first:
  "((\<exists>i<length (pending (problem m)).
        stalled_at now m i \<and> (\<forall>j<i. \<not> stalled_at now m j)
        \<and> fst (get_assignment now m) = parse_assignment (fst (pending (problem m) ! i)))
    \<or> ((\<forall>j<length (pending (problem m)). \<not> stalled_at now m j)
        \<and> fst (get_assignment now m)
            = Inr (next (problem m), next (problem m) + assignment_range m)))
   \<and> (case join_range a of Inl e \<Rightarrow> True | Inr key \<Rightarrow> parse_assignment key = Inr a)"
proof -
  obtain r k' where sc:
    "scan_pending now (resp_wait_time m) (clock_reads m) (pending (problem m)) = (r, k')"
    by (cases "scan_pending now (resp_wait_time m) (clock_reads m) (pending (problem m))")
  have "(\<exists>i<length (pending (problem m)).
        stalled_at now m i \<and> (\<forall>j<i. \<not> stalled_at now m j)
        \<and> fst (get_assignment now m) = parse_assignment (fst (pending (problem m) ! i)))
    \<or> ((\<forall>j<length (pending (problem m)). \<not> stalled_at now m j)
        \<and> fst (get_assignment now m)
            = Inr (next (problem m), next (problem m) + assignment_range m))"
  proof (cases r)
    case None
    from scan_pending_none [OF sc [unfolded None]]
    have "\<forall>j<length (pending (problem m)). \<not> stalled_at now m j"
      by (simp add: stalled_at_def)
    moreover have "fst (get_assignment now m)
        = Inr (next (problem m), next (problem m) + assignment_range m)"
      using sc None by (simp add: get_assignment_def)
    ultimately show ?thesis by blast
  next
    case (Some key)
    from scan_pending_found [OF sc [unfolded Some]]
    obtain i where i: "i < length (pending (problem m))" "fst (pending (problem m) ! i) = key"
      "stalled_at now m i" "\<forall>j<i. \<not> stalled_at now m j"
      unfolding stalled_at_def by blast
    moreover have "fst (get_assignment now m) = parse_assignment key"
      using sc Some by (simp add: get_assignment_def)
    ultimately show ?thesis by auto
  qed
  moreover have "case join_range a of Inl e \<Rightarrow> True | Inr key \<Rightarrow> parse_assignment key = Inr a"
    by (simp add: parse_assignment_join_range split: sum.splits)
  ultimately show ?thesis by simp
qed

lemma float_add_5_1: "float_add (double_of_int 5) (double_of_int 1) = 6"
  using float_add_ints [of 5 1] by simp

lemma float_add_1_1: "float_add (double_of_int 1) (double_of_int 1) = 2"
  using float_add_ints [of 1 1] by simp

lemma float_add_0_1: "float_add (double_of_int 0) (double_of_int 1) = 1"
  using float_add_ints [of 0 1] by simp

lemma real_of_small_double [simp]:
  "real_of_double (double_of_int 0) = 0" "real_of_double (double_of_int 1) = 1"
  "real_of_double (double_of_int 3) = 3" "real_of_double (double_of_int 5) = 5"
  using real_of_double_of_int [of 0] real_of_double_of_int [of 1] real_of_double_of_int [of 3]
    real_of_double_of_int [of 5]
  by simp_all

lemma py_int_1000: "py_int ''1000'' = Some 1000"
  using py_int_py_str [of 1000]
  by (simp add: py_str_def nat_digits.simps digit_char_def max_str_digits_def)

lemma py_int_2000: "py_int ''2000'' = Some 2000"
  using py_int_py_str [of 2000]
  by (simp add: py_str_def nat_digits.simps digit_char_def max_str_digits_def)

lemma py_int_0: "py_int ''0'' = Some 0"
  using py_int_py_str [of 0]
  by (simp add: py_str_def nat_digits.simps digit_char_def max_str_digits_def)

lemma py_int_10: "py_int ''10'' = Some 10"
  using py_int_py_str [of 10]
  by (simp add: py_str_def nat_digits.simps digit_char_def max_str_digits_def)

theorem get_assignment_stalled_first_witness:
  "\<not> stalled_at (\<lambda>k. double_of_int 3) manager_example 0
   \<and> stalled_at (\<lambda>k. double_of_int 3) manager_example 1
   \<and> fst (get_assignment (\<lambda>k. double_of_int 3) manager_example) = Inr (1000, 2000)
   \<and> \<not> stalled_at (\<lambda>k. double_of_int 1) manager_example 0
   \<and> \<not> stalled_at (\<lambda>k. double_of_int 1) manager_example 1
   \<and> fst (get_assignment (\<lambda>k. double_of_int 1) manager_example) = Inr (2000, 3000)
   \<and> join_range (1000, 2000) = Inr ''1000,2000''
   \<and> parse_assignment ''1000,2000'' = Inr (1000, 2000)"
proof -
  have p: "pending (problem manager_example)
      = [(''0,1000'', double_of_int 5), (''1000,2000'', double_of_int 1)]"
    by (simp add: manager_example_def)
  have s0: "\<not> stalled_at (\<lambda>k. double_of_int 3) manager_example 0"
    and s1: "stalled_at (\<lambda>k. double_of_int 3) manager_example 1"
    by (simp_all add: stalled_at_def manager_example_def float_add_5_1 float_add_1_1)
  have n0: "\<not> stalled_at (\<lambda>k. double_of_int 1) manager_example 0"
    and n1: "\<not> stalled_at (\<lambda>k. double_of_int 1) manager_example 1"
    by (simp_all add: stalled_at_def manager_example_def float_add_5_1 float_add_1_1)
  have j: "join_range (1000, 2000) = Inr ''1000,2000''"
    by (simp add: join_range_def str_int_def range_message_def py_str_def nat_digits.simps
        digit_char_def max_str_digits_def)
  have parse: "parse_assignment ''1000,2000'' = Inr (1000, 2000)"
    using get_assignment_stalled_first [of manager_example "\<lambda>k. double_of_int 3" "(1000, 2000)"] j
    by simp
  have a: "fst (get_assignment (\<lambda>k. double_of_int 3) manager_example) = Inr (1000, 2000)"
    using get_assignment_stalled_first [of manager_example "\<lambda>k. double_of_int 3" "(1000, 2000)"]
      s0 s1 p parse
    by (auto simp: less_Suc_eq)
  have b: "fst (get_assignment (\<lambda>k. double_of_int 1) manager_example) = Inr (2000, 3000)"
    using get_assignment_stalled_first [of manager_example "\<lambda>k. double_of_int 1" "(1000, 2000)"]
      n0 n1 p
    by (auto simp: manager_example_def less_Suc_eq)
  from s0 s1 a n0 n1 b j parse show ?thesis by simp
qed

text \<open>
  The test is the one that floats decide. An entry sent at \<open>2 ^ 31 - 1 / 2 ^ 22\<close>
  seconds, with a waiting time of one second, is not stalled at \<open>2 ^ 31 + 1\<close> seconds:
  the sum lies halfway between two floats and is rounded up to the clock's reading.
\<close>

lemma tie_is_not_stalled:
  assumes "real_of_double t = 2 ^ 31 - 1 / 2 ^ 22" and "real_of_double w = 1"
    and "real_of_double c = 2 ^ 31 + 1"
  shows "\<not> float_add t w < real_of_double c"
proof -
  have e: "(2::real) ^ 31 - 1 / 2 ^ 22 + 1 = 2 ^ 31 + 1 - 1 / 2 ^ 22"
    by (simp only: add_diff_eq diff_add_eq)
  have "float_add t w = round53 (2 ^ 31 + 1 - 1 / 2 ^ 22)"
    unfolding float_add_def assms(1,2) by (simp only: e)
  then show ?thesis
    by (simp only: round53_tie assms(3) less_irrefl not_False_eq_True)
qed

subsection \<open>Receiving results\<close>

lemma unpack_result_fields:
  "unpack_result msg = Inr (lower, higher, count, worker) \<Longrightarrow>
     decode msg = Inr msg \<and> split_comma msg = [lower, higher, count, worker]"
  by (auto simp: unpack_result_def decode_def split: sum.splits list.splits if_splits)

lemma keys_delete:
  "set (map fst (AList.delete k al)) = set (map fst al) - {k}"
  by (simp only: delete_keys set_removeAll)

lemma record_result_untracked:
  "unpack_result msg = Inr (lower, higher, count, worker) \<Longrightarrow>
   worker \<notin> set (map fst (busy_workers p)) \<Longrightarrow>
     record_result msg p = (Some AssertionError, p)"
  by (simp add: record_result_def)

lemma record_result_busy:
  "busy_workers (snd (record_result msg p)) = busy_workers p
   \<or> (\<exists>w. busy_workers (snd (record_result msg p)) = AList.delete w (busy_workers p))"
  by (auto simp: record_result_def Let_def split: sum.splits prod.splits option.splits)

lemma record_result_busy_subset:
  assumes "record_result msg p = (r, p')"
  shows "set (map fst (busy_workers p')) \<subseteq> set (map fst (busy_workers p))"
proof -
  from record_result_busy [of msg p] assms
  have "busy_workers p' = busy_workers p \<or> (\<exists>w. busy_workers p' = AList.delete w (busy_workers p))"
    by simp
  then show ?thesis
  proof
    assume "busy_workers p' = busy_workers p"
    then show ?thesis by simp
  next
    assume "\<exists>w. busy_workers p' = AList.delete w (busy_workers p)"
    then obtain w where "busy_workers p' = AList.delete w (busy_workers p)" ..
    then show ?thesis
      by (simp only: keys_delete) blast
  qed
qed

lemma record_result_tracked:
  assumes "unpack_result msg = Inr (lower, higher, count, worker)"
    and "worker \<in> set (map fst (busy_workers p))"
  shows "busy_workers (snd (record_result msg p)) = AList.delete worker (busy_workers p)"
  using assms by (simp add: record_result_def Let_def split: option.splits)

lemma recv_loop_busy_subset:
  "recv_loop errno p ds = (r, p', rest) \<Longrightarrow>
     set (map fst (busy_workers p')) \<subseteq> set (map fst (busy_workers p))"
proof (induction ds arbitrary: p)
  case Nil
  then show ?case by simp
next
  case (Cons d ds)
  show ?case
  proof (cases "length (take 1024 d) > 0")
    case False
    with Cons.prems show ?thesis by (simp add: Let_def)
  next
    case True
    obtain r1 p1 where rr: "record_result (take 1024 d) p = (r1, p1)"
      by (cases "record_result (take 1024 d) p")
    note sub = record_result_busy_subset [OF rr]
    show ?thesis
    proof (cases r1)
      case (Some e)
      with Cons.prems True rr have "p' = p1" by (simp add: Let_def)
      with sub show ?thesis by simp
    next
      case None
      with Cons.prems True rr have "recv_loop errno p1 ds = (r, p', rest)"
        by (simp add: Let_def)
      from Cons.IH [OF this] sub show ?thesis by blast
    qed
  qed
qed

lemma unpack_result_nonempty:
  "unpack_result msg = Inr (lower, higher, count, worker) \<Longrightarrow> length msg > 0"
  using unpack_result_fields [of msg lower higher count worker] by (cases msg) auto

lemma recv_results_problem:
  "recv_loop (wouldblock (sock m)) (problem m) (inbox (sock m)) = (r, p, rest) \<Longrightarrow>
     problem (recv_results m) = p \<and> inbox (sock (recv_results m)) = rest"
  by (simp add: recv_results_def Let_def split: option.splits exn.splits)

lemma recv_results_assertion:
  "recv_loop (wouldblock (sock m)) (problem m) (inbox (sock m)) = (Some AssertionError, p, rest) \<Longrightarrow>
     stdout (recv_results m) = stdout m @ [Recv_exception AssertionError]"
  by (simp add: recv_results_def Let_def)

lemma recv_loop_unrecorded_head:
  assumes "unpack_result (take 1024 d) = Inr (lower, higher, count, worker)"
    and "worker \<notin> set (map fst (busy_workers p))"
  shows "recv_loop errno p (d # ds) = (Some AssertionError, p, ds)"
  using record_result_untracked [OF assms] unpack_result_nonempty [OF assms(1)]
  by (simp add: Let_def)

lemma recv_results_recorded_head:
  assumes "inbox (sock m) = d # ds"
    and "unpack_result (take 1024 d) = Inr (lower, higher, count, worker)"
    and tracked: "worker \<in> set (map fst (busy_workers (problem m)))"
  shows "worker \<notin> set (map fst (busy_workers (problem (recv_results m))))"
proof -
  note ne = unpack_result_nonempty [OF assms(2)]
  obtain r1 p1 where rr: "record_result (take 1024 d) (problem m) = (r1, p1)"
    by (cases "record_result (take 1024 d) (problem m)")
  have "busy_workers p1 = AList.delete worker (busy_workers (problem m))"
    using record_result_tracked [OF assms(2) tracked] rr by simp
  then have gone: "worker \<notin> set (map fst (busy_workers p1))"
    by (simp only: keys_delete) simp
  obtain r p rest where rl:
    "recv_loop (wouldblock (sock m)) (problem m) (inbox (sock m)) = (r, p, rest)"
    by (cases "recv_loop (wouldblock (sock m)) (problem m) (inbox (sock m))")
  have "set (map fst (busy_workers p)) \<subseteq> set (map fst (busy_workers p1))"
  proof (cases r1)
    case (Some e)
    with rl rr ne assms(1) have "p = p1" by (simp add: Let_def)
    then show ?thesis by simp
  next
    case None
    with rl rr ne assms(1) have "recv_loop (wouldblock (sock m)) p1 ds = (r, p, rest)"
      by (simp add: Let_def)
    then show ?thesis by (rule recv_loop_busy_subset)
  qed
  with gone have "worker \<notin> set (map fst (busy_workers p))" by blast
  then show ?thesis
    using recv_results_problem [OF rl] by simp
qed

lemma recv_results_unrecorded_head:
  assumes "inbox (sock m) = d # ds"
    and "unpack_result (take 1024 d) = Inr (lower, higher, count, worker)"
    and "worker \<notin> set (map fst (busy_workers (problem m)))"
  shows "recv_results m
         = m\<lparr>problem := problem m, sock := (sock m)\<lparr>inbox := ds\<rparr>,
             stdout := stdout m @ [Recv_exception AssertionError]\<rparr>"
  using recv_loop_unrecorded_head [OF assms(2,3), of "wouldblock (sock m)" ds] assms(1)
  by (simp add: recv_results_def Let_def)

lemma unpack_0_10_10_7001:
  "unpack_result (take 1024 ''0,10,10,7001'') = Inr (''0'', ''10'', ''10'', ''7001'')"
  by (simp add: unpack_result_def decode_def lead_length_def)

lemma unpack_10_20_10_7002:
  "unpack_result (take 1024 ''10,20,10,7002'') = Inr (''10'', ''20'', ''10'', ''7002'')"
  by (simp add: unpack_result_def decode_def lead_length_def)

lemma record_10_20_10_7002:
  "record_result (take 1024 ''10,20,10,7002'') (problem manager_unrecorded)
   = (None, \<lparr> next = 20, pending = [(''0,10'', double_of_int 5)], busy_workers = [], finished = 10 \<rparr>)"
  using unpack_10_20_10_7002 py_int_10
  by (simp add: record_result_def manager_unrecorded_def Let_def)

text \<open>
  C4. \<^verbatim>\<open>_recv_results\<close> is documented as "Receive as many results as possible without
  blocking, record them, and delete the tracking of the corresponding assignments", and the spec calls a report from a worker that is not tracked as
  busy an oddity that is dropped or logged while the drain goes on. The code asserts
  \<^verbatim>\<open>worker in self._problem.busy_workers\<close> inside the \<^verbatim>\<open>try\<close> that wraps the whole loop.
  Two reports wait, for the two pending ranges \<^verbatim>\<open>0,10\<close> and \<^verbatim>\<open>10,20\<close>; the first comes from
  port 7001, which is not recorded as busy, the second from port 7002, which is. The drain
  prints the \<^verbatim>\<open>AssertionError\<close> and returns: no exception leaves it, but the Progress Record
  is as it was (\<^verbatim>\<open>finished\<close> is 0, both ranges are pending, 7002 is still busy) and the
  second report is still in the socket queue. Had the drain gone on, that report would have
  been recorded: on its own it clears 7002, removes \<^verbatim>\<open>10,20\<close> from \<^verbatim>\<open>pending\<close> and
  raises \<^verbatim>\<open>finished\<close> to 10.
\<close>

theorem recv_results_stops_at_unrecorded_worker:
  "inbox (sock manager_unrecorded) = [''0,10,10,7001'', ''10,20,10,7002'']
   \<and> map fst (busy_workers (problem manager_unrecorded)) = [''7002'']
   \<and> problem (recv_results manager_unrecorded) = problem manager_unrecorded
   \<and> finished (problem (recv_results manager_unrecorded)) = 0
   \<and> pending (problem (recv_results manager_unrecorded))
       = [(''0,10'', double_of_int 5), (''10,20'', double_of_int 5)]
   \<and> busy_workers (problem (recv_results manager_unrecorded)) = [(''7002'', ''10,20'')]
   \<and> inbox (sock (recv_results manager_unrecorded)) = [''10,20,10,7002'']
   \<and> stdout (recv_results manager_unrecorded) = [Recv_exception AssertionError]
   \<and> recv_loop 35 (problem manager_unrecorded) [''10,20,10,7002'']
       = (Some (SocketError 35),
          \<lparr> next = 20, pending = [(''0,10'', double_of_int 5)], busy_workers = [], finished = 10 \<rparr>,
          [])"
proof -
  have "record_result (take 1024 ''0,10,10,7001'') (problem manager_unrecorded)
      = (Some AssertionError, problem manager_unrecorded)"
    by (rule record_result_untracked [OF unpack_0_10_10_7001]) (simp add: manager_unrecorded_def)
  then have "recv_loop 35 (problem manager_unrecorded) [''0,10,10,7001'', ''10,20,10,7002'']
      = (Some AssertionError, problem manager_unrecorded, [''10,20,10,7002''])"
    by (simp add: Let_def)
  then have "recv_results manager_unrecorded
      = manager_unrecorded\<lparr>sock := (sock manager_unrecorded)\<lparr>inbox := [''10,20,10,7002'']\<rparr>,
          stdout := [Recv_exception AssertionError]\<rparr>"
    by (simp add: recv_results_def manager_unrecorded_def Let_def)
  moreover have "recv_loop 35 (problem manager_unrecorded) [''10,20,10,7002'']
       = (Some (SocketError 35),
          \<lparr> next = 20, pending = [(''0,10'', double_of_int 5)], busy_workers = [], finished = 10 \<rparr>,
          [])"
    using record_10_20_10_7002 by (simp add: Let_def)
  ultimately show ?thesis
    by (simp add: manager_unrecorded_def)
qed

subsection \<open>Duplicate reports\<close>

lemma record_result_not_pending:
  assumes "unpack_result msg = Inr (lower, higher, count, worker)"
    and "lower @ '','' @ higher \<notin> set (map fst (pending p))"
  shows "pending (snd (record_result msg p)) = pending p
         \<and> finished (snd (record_result msg p)) = finished p"
  using assms by (simp add: record_result_def Let_def)

lemma recv_loop_not_pending:
  assumes "\<forall>d\<in>set ds. \<exists>count worker. unpack_result (take 1024 d) = Inr (lower, higher, count, worker)"
    and "lower @ '','' @ higher \<notin> set (map fst (pending p))"
    and "recv_loop errno p ds = (r, p', rest)"
  shows "pending p' = pending p \<and> finished p' = finished p \<and> set rest \<subseteq> set ds"
  using assms
proof (induction ds arbitrary: p)
  case Nil
  then show ?case by simp
next
  case (Cons d ds)
  from Cons.prems(1) obtain count worker where
    u: "unpack_result (take 1024 d) = Inr (lower, higher, count, worker)"
    by auto
  note ne = unpack_result_nonempty [OF u]
  obtain r1 p1 where rr: "record_result (take 1024 d) p = (r1, p1)"
    by (cases "record_result (take 1024 d) p")
  have keep: "pending p1 = pending p \<and> finished p1 = finished p"
    using record_result_not_pending [OF u Cons.prems(2)] rr by simp
  show ?case
  proof (cases r1)
    case (Some e)
    with Cons.prems(3) rr ne have "p' = p1" "rest = ds" by (simp_all add: Let_def)
    with keep show ?thesis by auto
  next
    case None
    with Cons.prems(3) rr ne have rl: "recv_loop errno p1 ds = (r, p', rest)"
      by (simp add: Let_def)
    have "lower @ '','' @ higher \<notin> set (map fst (pending p1))"
      using keep Cons.prems(2) by simp
    from Cons.IH [OF _ this rl] Cons.prems(1) keep show ?thesis by auto
  qed
qed

lemma recv_results_not_pending:
  assumes "\<forall>d\<in>set (inbox (sock m)). \<exists>count worker.
             unpack_result (take 1024 d) = Inr (lower, higher, count, worker)"
    and "lower @ '','' @ higher \<notin> set (map fst (pending (problem m)))"
  shows "pending (problem (recv_results m)) = pending (problem m)
         \<and> finished (problem (recv_results m)) = finished (problem m)
         \<and> set (inbox (sock (recv_results m))) \<subseteq> set (inbox (sock m))"
proof -
  obtain r p rest where rl:
    "recv_loop (wouldblock (sock m)) (problem m) (inbox (sock m)) = (r, p, rest)"
    by (cases "recv_loop (wouldblock (sock m)) (problem m) (inbox (sock m))")
  from recv_loop_not_pending [OF assms rl] recv_results_problem [OF rl]
  show ?thesis by simp
qed

lemma recv_results_repeated_not_pending:
  assumes "\<forall>d\<in>set (inbox (sock m)). \<exists>count worker.
             unpack_result (take 1024 d) = Inr (lower, higher, count, worker)"
    and "lower @ '','' @ higher \<notin> set (map fst (pending (problem m)))"
  shows "pending (problem ((recv_results ^^ n) m)) = pending (problem m)
         \<and> finished (problem ((recv_results ^^ n) m)) = finished (problem m)"
  using assms
proof (induction n arbitrary: m)
  case 0
  show ?case by simp
next
  case (Suc n)
  note step = recv_results_not_pending [OF Suc.prems]
  have a: "\<forall>d\<in>set (inbox (sock (recv_results m))). \<exists>count worker.
             unpack_result (take 1024 d) = Inr (lower, higher, count, worker)"
    using step Suc.prems(1) by blast
  have b: "lower @ '','' @ higher \<notin> set (map fst (pending (problem (recv_results m))))"
    using step Suc.prems(2) by simp
  from Suc.IH [OF a b] step show ?case
    by (simp add: funpow_swap1)
qed

lemma record_result_first:
  assumes "unpack_result msg = Inr (lower, higher, count, worker)"
    and "worker \<in> set (map fst (busy_workers p))"
    and "py_int count = Some c"
    and "lower @ '','' @ higher \<in> set (map fst (pending p))"
  shows "\<exists>p1. record_result msg p = (None, p1) \<and> finished p1 = finished p + c
           \<and> pending p1 = AList.delete (lower @ '','' @ higher) (pending p)"
  using assms by (simp add: record_result_def Let_def)

text \<open>
  Where the first report of a pending range passes the assertion, the range is counted once:
  all waiting messages report the same range, and the first of them comes from a worker
  recorded in \<^verbatim>\<open>busy_workers\<close>, with a count that \<^verbatim>\<open>int()\<close> reads as \<open>c\<close>. Then after
  one drain, and after any number of further drains, \<^verbatim>\<open>finished\<close> has grown by \<open>c\<close> and
  the range has left \<^verbatim>\<open>pending\<close>.
\<close>

lemma recorded_reports_counted_once:
  assumes "inbox (sock m) = d # ds"
    and "unpack_result (take 1024 d) = Inr (lower, higher, count, worker)"
    and "worker \<in> set (map fst (busy_workers (problem m)))"
    and "py_int count = Some c"
    and "lower @ '','' @ higher \<in> set (map fst (pending (problem m)))"
    and "\<forall>d'\<in>set ds. \<exists>count' worker'.
           unpack_result (take 1024 d') = Inr (lower, higher, count', worker')"
  shows "finished (problem ((recv_results ^^ Suc n) m)) = finished (problem m) + c
         \<and> pending (problem ((recv_results ^^ Suc n) m))
             = AList.delete (lower @ '','' @ higher) (pending (problem m))"
proof -
  let ?k = "lower @ '','' @ higher"
  note ne = unpack_result_nonempty [OF assms(2)]
  from record_result_first [OF assms(2-5)] obtain p1 where
    rr: "record_result (take 1024 d) (problem m) = (None, p1)"
    and p1: "finished p1 = finished (problem m) + c"
      "pending p1 = AList.delete ?k (pending (problem m))"
    by blast
  have gone: "?k \<notin> set (map fst (pending p1))"
    unfolding p1(2) by (simp only: keys_delete) simp
  obtain r p rest where rl: "recv_loop (wouldblock (sock m)) p1 ds = (r, p, rest)"
    by (cases "recv_loop (wouldblock (sock m)) p1 ds")
  have whole: "recv_loop (wouldblock (sock m)) (problem m) (inbox (sock m)) = (r, p, rest)"
    using rr rl ne assms(1) by (simp add: Let_def)
  from recv_loop_not_pending [OF assms(6) gone rl]
  have p: "pending p = pending p1" "finished p = finished p1" "set rest \<subseteq> set ds"
    by simp_all
  have one: "problem (recv_results m) = p" "inbox (sock (recv_results m)) = rest"
    using recv_results_problem [OF whole] by simp_all
  have a: "\<forall>d\<in>set (inbox (sock (recv_results m))). \<exists>count worker.
             unpack_result (take 1024 d) = Inr (lower, higher, count, worker)"
    using one(2) p(3) assms(6) by blast
  have b: "?k \<notin> set (map fst (pending (problem (recv_results m))))"
    using one(1) p(1) gone by simp
  from recv_results_repeated_not_pending [OF a b, of n] one(1) p p1
  show ?thesis
    by (simp add: funpow_swap1)
qed

lemma record_0_10_10_7002:
  "record_result (take 1024 ''0,10,10,7002'') (problem manager_first_unrecorded)
   = (None, \<lparr> next = 10, pending = [], busy_workers = [], finished = 10 \<rparr>)"
proof -
  have "unpack_result (take 1024 ''0,10,10,7002'') = Inr (''0'', ''10'', ''10'', ''7002'')"
    by (simp add: unpack_result_def decode_def lead_length_def)
  then show ?thesis
    using py_int_10 by (simp add: record_result_def manager_first_unrecorded_def Let_def)
qed

text \<open>
  C5. The comment in \<^verbatim>\<open>_recv_results\<close> reads "Record it only once, when the assignment is in
  pending", and the spec has \<^verbatim>\<open>finished\<close> grow by the reported count exactly once for the
  reports of a range. The assertion \<^verbatim>\<open>worker in self._problem.busy_workers\<close> comes first, so
  the report of a pending range is recorded only when its sender is tracked as busy. The
  range \<^verbatim>\<open>0,10\<close> is pending (it was last sent to port 7002) and its report arrives, twice,
  from port 7001: after two drains the queue is empty, \<^verbatim>\<open>finished\<close> is still 0 and the
  range is still pending; zero times, not once. The same report from port 7002 is recorded:
  \<^verbatim>\<open>finished\<close> becomes 10 and the range leaves \<^verbatim>\<open>pending\<close>.
\<close>

theorem report_of_unrecorded_worker_not_counted:
  "inbox (sock manager_first_unrecorded) = [''0,10,10,7001'', ''0,10,10,7001'']
   \<and> pending (problem manager_first_unrecorded) = [(''0,10'', double_of_int 5)]
   \<and> finished (problem manager_first_unrecorded) = 0
   \<and> unpack_result (take 1024 ''0,10,10,7001'') = Inr (''0'', ''10'', ''10'', ''7001'')
   \<and> finished (problem (recv_results (recv_results manager_first_unrecorded))) = 0
   \<and> pending (problem (recv_results (recv_results manager_first_unrecorded)))
       = [(''0,10'', double_of_int 5)]
   \<and> inbox (sock (recv_results (recv_results manager_first_unrecorded))) = []
   \<and> stdout (recv_results (recv_results manager_first_unrecorded))
       = [Recv_exception AssertionError, Recv_exception AssertionError]
   \<and> record_result (take 1024 ''0,10,10,7002'') (problem manager_first_unrecorded)
       = (None, \<lparr> next = 10, pending = [], busy_workers = [], finished = 10 \<rparr>)"
proof -
  have rr: "record_result (take 1024 ''0,10,10,7001'') (problem manager_first_unrecorded)
      = (Some AssertionError, problem manager_first_unrecorded)"
    by (rule record_result_untracked [OF unpack_0_10_10_7001]) (simp add: manager_first_unrecorded_def)
  have l1: "recv_loop 35 (problem manager_first_unrecorded) [''0,10,10,7001'', ''0,10,10,7001'']
      = (Some AssertionError, problem manager_first_unrecorded, [''0,10,10,7001''])"
    using rr by (simp add: Let_def)
  have l2: "recv_loop 35 (problem manager_first_unrecorded) [''0,10,10,7001'']
      = (Some AssertionError, problem manager_first_unrecorded, [])"
    using rr by (simp add: Let_def)
  have d1: "recv_results manager_first_unrecorded
      = manager_first_unrecorded\<lparr>sock := (sock manager_first_unrecorded)\<lparr>inbox := [''0,10,10,7001'']\<rparr>,
          stdout := [Recv_exception AssertionError]\<rparr>"
    using l1 by (simp add: recv_results_def manager_first_unrecorded_def Let_def)
  have d2: "recv_results (recv_results manager_first_unrecorded)
      = manager_first_unrecorded\<lparr>sock := (sock manager_first_unrecorded)\<lparr>inbox := []\<rparr>,
          stdout := [Recv_exception AssertionError, Recv_exception AssertionError]\<rparr>"
    unfolding d1 using l2 by (simp add: recv_results_def manager_first_unrecorded_def Let_def)
  show ?thesis
    unfolding d2 using unpack_0_10_10_7001 record_0_10_10_7002
    by (simp add: manager_first_unrecorded_def)
qed

subsection \<open>A failed read of a role\<close>

lemma decode_same: "decode msg = Inr s \<Longrightarrow> s = msg"
  by (simp add: decode_def split: if_splits)

lemma parse_assignment_nonempty: "parse_assignment s = Inr a \<Longrightarrow> length s > 0"
  by (cases s) (simp_all add: parse_assignment_def py_int_def parse_long_def strip_def)

text \<open>
  C10. When the read of the role fails with \<^verbatim>\<open>RegistryError\<close>, \<^verbatim>\<open>active_players()\<close>
  returns \<^verbatim>\<open>None\<close>. The body of the manager's loop then raises \<^verbatim>\<open>TypeError\<close> at
  the subtraction, whatever its state; the body of the worker's loop, having received an
  assignment it can read, raises \<^verbatim>\<open>TypeError\<close> at \<^verbatim>\<open>len(players)\<close> and sends
  nothing. Neither loop has a handler for it.
\<close>

theorem active_players_none_raises_type_error:
  assumes "inbox s = d # ds"
    and "decode (take 1024 d) = Inr payload"
    and "parse_assignment payload = Inr (lower, higher)"
  shows "active_players (Inl RegistryError) = Inr None
         \<and> fst (do_work_iteration now (Inl RegistryError) write m assigned) = Some TypeError
         \<and> fst (worker_iteration (Inl RegistryError) nm s solved) = Some TypeError
         \<and> outbox (fst (snd (worker_iteration (Inl RegistryError) nm s solved))) = outbox s"
proof -
  have none: "active_players (Inl RegistryError) = Inr None"
    by (simp add: active_players_def)
  have mgr: "fst (do_work_iteration now (Inl RegistryError) write m assigned) = Some TypeError"
    by (simp add: do_work_iteration_def none Let_def)
  have ne: "length (take 1024 d) > 0"
    using parse_assignment_nonempty [OF assms(3)] decode_same [OF assms(2)] by simp
  have "worker_iteration (Inl RegistryError) nm s solved = (Some TypeError, s\<lparr>inbox := ds\<rparr>, solved)"
    using assms ne by (simp add: worker_iteration_def none Let_def)
  with none mgr show ?thesis by simp
qed

theorem active_players_none_raises_type_error_witness:
  "inbox worker_socket_example = [''0,10'']
   \<and> decode (take 1024 ''0,10'') = Inr ''0,10''
   \<and> parse_assignment ''0,10'' = Inr (0, 10)
   \<and> fst (do_work_iteration (\<lambda>k. double_of_int 3) (Inl RegistryError) (Inr ()) manager_example 0)
       = Some TypeError
   \<and> fst (worker_iteration (Inl RegistryError) ''7001'' worker_socket_example 0) = Some TypeError"
proof -
  have i: "inbox worker_socket_example = ''0,10'' # []"
    by (simp add: worker_socket_example_def)
  have d: "decode (take 1024 ''0,10'') = Inr ''0,10''"
    by (simp add: decode_def lead_length_def)
  have p: "parse_assignment ''0,10'' = Inr (0, 10)"
    by (simp add: parse_assignment_def py_int_0 py_int_10)
  from active_players_none_raises_type_error
    [OF i d p, of "\<lambda>k. double_of_int 3" "Inr ()" manager_example 0 "''7001''" 0]
    i d p
  show ?thesis by simp
qed

subsection \<open>One pass over the free workers\<close>

lemma get_assignment_state:
  assumes "get_assignment now m = (ra, m1)"
  shows "problem m1 = problem m \<and> sock m1 = sock m \<and> resp_wait_time m1 = resp_wait_time m
         \<and> assignment_range m1 = assignment_range m \<and> clock_reads m \<le> clock_reads m1"
proof -
  obtain r k where sc:
    "scan_pending now (resp_wait_time m) (clock_reads m) (pending (problem m)) = (r, k)"
    by (cases "scan_pending now (resp_wait_time m) (clock_reads m) (pending (problem m))")
  have "clock_reads m \<le> k"
  proof (cases r)
    case None
    from scan_pending_none [OF sc [unfolded None]] show ?thesis by simp
  next
    case (Some a)
    from scan_pending_found [OF sc [unfolded Some]] show ?thesis by auto
  qed
  moreover have "m1 = m\<lparr>clock_reads := k\<rparr>"
    using assms sc by (cases r) (simp_all add: get_assignment_def)
  ultimately show ?thesis by simp
qed

lemma get_assignment_choice:
  assumes "get_assignment now m = (Inr a, m1)"
  shows "(\<exists>key ts j. (key, ts) \<in> set (pending (problem m)) \<and> parse_assignment key = Inr a
            \<and> float_add ts (resp_wait_time m) < real_of_double (now j)
            \<and> clock_reads m \<le> j \<and> j < clock_reads m1)
         \<or> a = (next (problem m), next (problem m) + assignment_range m)"
proof -
  obtain r k where sc:
    "scan_pending now (resp_wait_time m) (clock_reads m) (pending (problem m)) = (r, k)"
    by (cases "scan_pending now (resp_wait_time m) (clock_reads m) (pending (problem m))")
  show ?thesis
  proof (cases r)
    case None
    with assms sc show ?thesis by (simp add: get_assignment_def)
  next
    case (Some key)
    from scan_pending_found [OF sc [unfolded Some]] obtain i where
      i: "i < length (pending (problem m))" "fst (pending (problem m) ! i) = key"
         "float_add (snd (pending (problem m) ! i)) (resp_wait_time m)
            < real_of_double (now (clock_reads m + i))"
         "k = Suc (clock_reads m + i)"
      by blast
    have mem: "(key, snd (pending (problem m) ! i)) \<in> set (pending (problem m))"
      using i(1,2) nth_mem [of i "pending (problem m)"] by (metis prod.collapse)
    have "parse_assignment key = Inr a" "clock_reads m1 = k"
      using assms sc Some by (auto simp: get_assignment_def)
    with mem i(3,4) show ?thesis
      by (intro disjI1 exI [of _ key] exI [of _ "snd (pending (problem m) ! i)"]
          exI [of _ "clock_reads m + i"]) simp
  qed
qed

lemma send_assignment_failure:
  assumes "send_assignment now a w m1 = (Some e, m2)"
  shows "problem m2 = problem m1 \<and> clock_reads m2 = clock_reads m1
         \<and> (outbox (sock m2) = outbox (sock m1)
            \<or> (\<exists>port. outbox (sock m2) = outbox (sock m1) @ [(range_message a, port)]))"
  using assms
  by (auto simp: send_assignment_def Let_def split: sum.splits option.splits if_splits
      dest!: join_range_text)

lemma send_assignment_success:
  assumes "send_assignment now a w m1 = (None, m2)"
  shows "(\<exists>port. outbox (sock m2) = outbox (sock m1) @ [(range_message a, port)])
         \<and> pending (problem m2)
             = AList.update (range_message a) (now (clock_reads m1)) (pending (problem m1))
         \<and> next (problem m2) = max (next (problem m1)) (snd a)
         \<and> clock_reads m2 = Suc (clock_reads m1)
         \<and> resp_wait_time m2 = resp_wait_time m1
         \<and> assignment_range m2 = assignment_range m1"
  using assms
  by (auto simp: send_assignment_def Let_def split: sum.splits option.splits if_splits
      dest!: join_range_text)

lemma assign_free_clock:
  "assign_free now ws m n = (r, m', n') \<Longrightarrow> clock_reads m \<le> clock_reads m'"
proof (induction ws arbitrary: m n)
  case Nil
  then show ?case by simp
next
  case (Cons w ws)
  obtain ra m1 where ga: "get_assignment now m = (ra, m1)"
    by (cases "get_assignment now m")
  note st = get_assignment_state [OF ga]
  show ?case
  proof (cases ra)
    case (Inl e)
    with Cons.prems ga have "m' = m1" by simp
    with st show ?thesis by simp
  next
    case (Inr a)
    obtain re m2 where sa: "send_assignment now a w m1 = (re, m2)"
      by (cases "send_assignment now a w m1")
    show ?thesis
    proof (cases re)
      case (Some e)
      with Cons.prems ga Inr sa have "m' = m2" by simp
      with send_assignment_failure [OF sa [unfolded Some]] st show ?thesis by simp
    next
      case None
      with Cons.prems ga Inr sa have "assign_free now ws m2 (n + 1) = (r, m', n')" by simp
      from Cons.IH [OF this] send_assignment_success [OF sa [unfolded None]] st
      show ?thesis by simp
    qed
  qed
qed

lemma pass_inv_get:
  assumes "pass_inv now k0 S m" and "get_assignment now m = (ra, m1)"
  shows "pass_inv now k0 S m1"
proof -
  note st = get_assignment_state [OF assms(2)]
  have "\<forall>msg\<in>S. \<exists>a i. msg = range_message a \<and> snd a \<le> next (problem m1)
            \<and> k0 \<le> i \<and> i < clock_reads m1
            \<and> map_of (pending (problem m1)) msg = Some (now i)"
  proof
    fix msg assume "msg \<in> S"
    with assms(1) obtain a i where "msg = range_message a" "snd a \<le> next (problem m)"
      "k0 \<le> i" "i < clock_reads m" "map_of (pending (problem m)) msg = Some (now i)"
      unfolding pass_inv_def by blast
    with st show "\<exists>a i. msg = range_message a \<and> snd a \<le> next (problem m1)
            \<and> k0 \<le> i \<and> i < clock_reads m1
            \<and> map_of (pending (problem m1)) msg = Some (now i)"
      by (intro exI [of _ a] exI [of _ i]) simp
  qed
  with assms(1) st show ?thesis
    unfolding pass_inv_def by simp
qed

lemma pass_inv_send:
  assumes inv: "pass_inv now k0 S m1"
    and sa: "send_assignment now a w m1 = (None, m2)"
    and fresh: "range_message a \<notin> S"
  shows "pass_inv now k0 (insert (range_message a) S) m2"
proof -
  note su = send_assignment_success [OF sa]
  let ?msg = "range_message a"
  have pend: "pending (problem m2) = AList.update ?msg (now (clock_reads m1)) (pending (problem m1))"
    using su by simp
  have nxt: "next (problem m2) = max (next (problem m1)) (snd a)"
    using su by simp
  have clk: "clock_reads m2 = Suc (clock_reads m1)"
    using su by simp
  have k0: "k0 \<le> clock_reads m1"
    using inv unfolding pass_inv_def by simp
  have d: "distinct (map fst (pending (problem m2)))"
    unfolding pend using inv unfolding pass_inv_def by (simp add: distinct_update)
  have keys: "set (map fst (pending (problem m2))) = insert ?msg (set (map fst (pending (problem m1))))"
    unfolding pend using dom_update [of ?msg "now (clock_reads m1)" "pending (problem m1)"]
    by simp
  have "\<forall>key\<in>set (map fst (pending (problem m1))). \<exists>a. key = range_message a"
    using inv unfolding pass_inv_def by blast
  then have canon: "\<forall>key\<in>set (map fst (pending (problem m2))). \<exists>a. key = range_message a"
    unfolding keys by blast
  have sent: "\<forall>msg\<in>insert ?msg S. \<exists>a i. msg = range_message a \<and> snd a \<le> next (problem m2)
            \<and> k0 \<le> i \<and> i < clock_reads m2
            \<and> map_of (pending (problem m2)) msg = Some (now i)"
  proof
    fix msg assume "msg \<in> insert ?msg S"
    then consider "msg = ?msg" | "msg \<in> S" "msg \<noteq> ?msg"
      using fresh by auto
    then show "\<exists>a i. msg = range_message a \<and> snd a \<le> next (problem m2)
            \<and> k0 \<le> i \<and> i < clock_reads m2
            \<and> map_of (pending (problem m2)) msg = Some (now i)"
    proof cases
      case 1
      have "map_of (pending (problem m2)) ?msg = Some (now (clock_reads m1))"
        unfolding pend by (simp add: update_conv')
      with 1 nxt clk k0 show ?thesis
        by (intro exI [of _ a] exI [of _ "clock_reads m1"]) simp
    next
      case 2
      with inv obtain a' i where a': "msg = range_message a'" "snd a' \<le> next (problem m1)"
        "k0 \<le> i" "i < clock_reads m1" "map_of (pending (problem m1)) msg = Some (now i)"
        unfolding pass_inv_def by blast
      have "map_of (pending (problem m2)) msg = Some (now i)"
        unfolding pend using 2(2) a'(5) by (simp add: update_conv')
      with a' nxt clk show ?thesis
        by (intro exI [of _ a'] exI [of _ i]) simp
    qed
  qed
  from k0 clk d canon sent show ?thesis
    unfolding pass_inv_def by simp
qed

lemma chosen_message_fresh:
  assumes inv: "pass_inv now k0 S m"
    and chunk: "0 < assignment_range m"
    and ga: "get_assignment now m = (Inr a, m1)"
    and bound: "clock_reads m1 \<le> K"
    and clock: "\<forall>i j. k0 \<le> i \<and> i < j \<and> j < K \<longrightarrow>
                  real_of_double (now j) \<le> real_of_double (now i) + real_of_double (resp_wait_time m)"
  shows "range_message a \<notin> S"
proof
  assume "range_message a \<in> S"
  with inv obtain a' i where a': "range_message a = range_message a'"
    "snd a' \<le> next (problem m)" "k0 \<le> i" "i < clock_reads m"
    "map_of (pending (problem m)) (range_message a) = Some (now i)"
    unfolding pass_inv_def by blast
  have same: "a' = a"
    using a'(1) by (simp add: range_message_inj)
  from get_assignment_choice [OF ga] show False
  proof
    assume "\<exists>key ts j. (key, ts) \<in> set (pending (problem m)) \<and> parse_assignment key = Inr a
            \<and> float_add ts (resp_wait_time m) < real_of_double (now j)
            \<and> clock_reads m \<le> j \<and> j < clock_reads m1"
    then obtain key ts j where k: "(key, ts) \<in> set (pending (problem m))"
      "parse_assignment key = Inr a" "float_add ts (resp_wait_time m) < real_of_double (now j)"
      "clock_reads m \<le> j" "j < clock_reads m1"
      by blast
    have "key \<in> set (map fst (pending (problem m)))"
      using k(1) by force
    with inv obtain a0 where "key = range_message a0"
      unfolding pass_inv_def by blast
    with k(2) have key: "key = range_message a"
      using parse_assignment_range_message_only [of a0 a] by simp
    have "distinct (map fst (pending (problem m)))"
      using inv unfolding pass_inv_def by simp
    then have "map_of (pending (problem m)) key = Some ts"
      using k(1) by simp
    with a'(5) key have "ts = now i" by simp
    moreover have "real_of_double (now j) \<le> real_of_double (now i) + real_of_double (resp_wait_time m)"
      using clock a'(3,4) k(4,5) bound by simp
    ultimately show False
      using k(3) float_add_not_less [of "now j" "now i" "resp_wait_time m"] by simp
  next
    assume "a = (next (problem m), next (problem m) + assignment_range m)"
    with same a'(2) chunk show False by simp
  qed
qed

lemma assign_free_fresh:
  assumes "pass_inv now k0 S m"
    and "0 < assignment_range m"
    and "assign_free now ws m n = (r, m', n')"
    and "\<forall>i j. k0 \<le> i \<and> i < j \<and> j < clock_reads m' \<longrightarrow>
           real_of_double (now j) \<le> real_of_double (now i) + real_of_double (resp_wait_time m)"
  shows "\<exists>as. map fst (outbox (sock m')) = map fst (outbox (sock m)) @ map range_message as
           \<and> distinct (map range_message as) \<and> set (map range_message as) \<inter> S = {}"
  using assms
proof (induction ws arbitrary: m n S)
  case Nil
  then have "m' = m" by simp
  then show ?case
    by (intro exI [of _ "[]"]) simp
next
  case (Cons w ws)
  obtain ra m1 where ga: "get_assignment now m = (ra, m1)"
    by (cases "get_assignment now m")
  note st = get_assignment_state [OF ga]
  show ?case
  proof (cases ra)
    case (Inl e)
    with Cons.prems(3) ga have "m' = m1" by simp
    with st show ?thesis
      by (intro exI [of _ "[]"]) simp
  next
    case (Inr a)
    obtain re m2 where sa: "send_assignment now a w m1 = (re, m2)"
      by (cases "send_assignment now a w m1")
    have m1_le: "clock_reads m1 \<le> clock_reads m'"
    proof (cases re)
      case (Some e)
      with Cons.prems(3) ga Inr sa have "m' = m2" by simp
      with send_assignment_failure [OF sa [unfolded Some]] show ?thesis by simp
    next
      case None
      with Cons.prems(3) ga Inr sa have "assign_free now ws m2 (n + 1) = (r, m', n')" by simp
      from assign_free_clock [OF this] send_assignment_success [OF sa [unfolded None]]
      show ?thesis by simp
    qed
    have fresh: "range_message a \<notin> S"
      using chosen_message_fresh [OF Cons.prems(1,2) ga [unfolded Inr] m1_le Cons.prems(4)] .
    show ?thesis
    proof (cases re)
      case (Some e)
      with Cons.prems(3) ga Inr sa have m': "m' = m2" by simp
      from send_assignment_failure [OF sa [unfolded Some]]
      have "outbox (sock m2) = outbox (sock m1)
            \<or> (\<exists>port. outbox (sock m2) = outbox (sock m1) @ [(range_message a, port)])"
        by simp
      then show ?thesis
      proof
        assume "outbox (sock m2) = outbox (sock m1)"
        with m' st show ?thesis
          by (intro exI [of _ "[]"]) simp
      next
        assume "\<exists>port. outbox (sock m2) = outbox (sock m1) @ [(range_message a, port)]"
        with m' st fresh show ?thesis
          by (intro exI [of _ "[a]"]) auto
      qed
    next
      case None
      note su = send_assignment_success [OF sa [unfolded None]]
      from Cons.prems(3) ga Inr sa None
      have rest: "assign_free now ws m2 (n + 1) = (r, m', n')" by simp
      have inv2: "pass_inv now k0 (insert (range_message a) S) m2"
        using pass_inv_send [OF pass_inv_get [OF Cons.prems(1) ga] sa [unfolded None] fresh] .
      have chunk2: "0 < assignment_range m2"
        using su st Cons.prems(2) by simp
      have clock2: "\<forall>i j. k0 \<le> i \<and> i < j \<and> j < clock_reads m' \<longrightarrow>
                      real_of_double (now j) \<le> real_of_double (now i) + real_of_double (resp_wait_time m2)"
        using su st Cons.prems(4) by simp
      from Cons.IH [OF inv2 chunk2 rest clock2] obtain as where
        as: "map fst (outbox (sock m')) = map fst (outbox (sock m2)) @ map range_message as"
            "distinct (map range_message as)"
            "set (map range_message as) \<inter> insert (range_message a) S = {}"
        by blast
      from su obtain port where
        "outbox (sock m2) = outbox (sock m1) @ [(range_message a, port)]"
        by blast
      with as st fresh show ?thesis
        by (intro exI [of _ "a # as"]) auto
    qed
  qed
qed

text \<open>
  C6, as the code has it. One pass of the loop over the free workers, started with a positive
  \<^verbatim>\<open>_assignment_range\<close> and a \<^verbatim>\<open>pending\<close> whose keys are the payloads of ranges,
  each once. If no reading of the clock taken during the pass lies more than
  \<^verbatim>\<open>_resp_wait_time\<close> after an earlier one (the readings and the waiting time are
  floats, and the bound is on their exact values), the datagrams sent in the pass carry the
  payloads of pairwise different ranges, whether the pass ends normally or by an
  exception.
\<close>

theorem no_range_sent_twice_in_a_pass:
  assumes "0 < assignment_range m"
    and "distinct (map fst (pending (problem m)))"
    and "\<forall>key\<in>set (map fst (pending (problem m))). \<exists>a. key = range_message a"
    and "assign_free now ws m n = (r, m', n')"
    and "\<forall>i j. clock_reads m \<le> i \<and> i < j \<and> j < clock_reads m' \<longrightarrow>
           real_of_double (now j) \<le> real_of_double (now i) + real_of_double (resp_wait_time m)"
  shows "\<exists>as. sent_payloads m m' = map range_message as \<and> distinct as"
proof -
  have inv: "pass_inv now (clock_reads m) {} m"
    using assms(2,3) unfolding pass_inv_def by simp
  from assign_free_fresh [OF inv assms(1,4,5)] obtain as where
    as: "map fst (outbox (sock m')) = map fst (outbox (sock m)) @ map range_message as"
        "distinct (map range_message as)"
    by blast
  have "sent_payloads m m' = drop (length (map fst (outbox (sock m)))) (map fst (outbox (sock m')))"
    by (simp add: sent_payloads_def drop_map)
  also have "\<dots> = map range_message as"
    unfolding as(1) by simp
  finally have "sent_payloads m m' = map range_message as" .
  moreover have "distinct as"
    using as(2) by (simp add: distinct_map)
  ultimately show ?thesis by blast
qed

lemma range_message_0_1000: "range_message (0, 1000) = ''0,1000''"
  by (simp add: range_message_def py_str_def nat_digits.simps digit_char_def)

lemma range_message_1000_2000: "range_message (1000, 2000) = ''1000,2000''"
  by (simp add: range_message_def py_str_def nat_digits.simps digit_char_def)

lemma join_range_0_1000: "join_range (0, 1000) = Inr ''0,1000''"
  using range_message_0_1000
  by (simp add: join_range_def str_int_def nat_digits.simps max_str_digits_def)

lemma join_range_1000_2000: "join_range (1000, 2000) = Inr ''1000,2000''"
  using range_message_1000_2000
  by (simp add: join_range_def str_int_def nat_digits.simps max_str_digits_def)

lemma parse_assignment_0_1000: "parse_assignment ''0,1000'' = Inr (0, 1000)"
  by (rule parse_assignment_join_range [OF join_range_0_1000])

lemma py_int_7001: "py_int ''7001'' = Some 7001"
  using py_int_py_str [of 7001]
  by (simp add: py_str_def nat_digits.simps digit_char_def max_str_digits_def)

lemma py_int_7002: "py_int ''7002'' = Some 7002"
  using py_int_py_str [of 7002]
  by (simp add: py_str_def nat_digits.simps digit_char_def max_str_digits_def)

lemma pass_in_time:
  "assign_free (\<lambda>k. double_of_int 5) [''7001'', ''7002''] manager_stalled 0
     = (None,
        \<lparr> resp_wait_time = double_of_int 1, assignment_range = 1000,
          problem = \<lparr> next = 2000,
                      pending = [(''0,1000'', double_of_int 5), (''1000,2000'', double_of_int 5)],
                      busy_workers = [(''7003'', ''0,1000''), (''7001'', ''0,1000''),
                                      (''7002'', ''1000,2000'')],
                      finished = 0 \<rparr>,
          sock = \<lparr> inbox = [], outbox = [(''0,1000'', 7001), (''1000,2000'', 7002)],
                   wouldblock = 35 \<rparr>,
          clock_reads = 4, stdout = [] \<rparr>, 2)"
  by (simp add: manager_stalled_def get_assignment_def send_assignment_def Let_def
      parse_assignment_0_1000 join_range_0_1000 join_range_1000_2000 py_int_7001 py_int_7002
      float_add_ints real_of_double_of_int)

lemma pass_too_slow:
  "assign_free (\<lambda>k. double_of_int (5 + 2 * int k)) [''7001'', ''7002''] manager_stalled 0
     = (None,
        \<lparr> resp_wait_time = double_of_int 1, assignment_range = 1000,
          problem = \<lparr> next = 1000, pending = [(''0,1000'', double_of_int 11)],
                      busy_workers = [(''7003'', ''0,1000''), (''7001'', ''0,1000''),
                                      (''7002'', ''0,1000'')],
                      finished = 0 \<rparr>,
          sock = \<lparr> inbox = [], outbox = [(''0,1000'', 7001), (''0,1000'', 7002)],
                   wouldblock = 35 \<rparr>,
          clock_reads = 4, stdout = [] \<rparr>, 2)"
  by (simp add: manager_stalled_def get_assignment_def send_assignment_def Let_def
      parse_assignment_0_1000 join_range_0_1000 py_int_7001 py_int_7002
      float_add_ints real_of_double_of_int)

theorem no_range_sent_twice_in_a_pass_witness:
  "0 < assignment_range manager_stalled
   \<and> distinct (map fst (pending (problem manager_stalled)))
   \<and> map fst (pending (problem manager_stalled)) = [range_message (0, 1000)]
   \<and> sent_payloads manager_stalled
        (fst (snd (assign_free (\<lambda>k. double_of_int 5) [''7001'', ''7002''] manager_stalled 0)))
       = [''0,1000'', ''1000,2000'']
   \<and> (\<exists>as. sent_payloads manager_stalled
               (fst (snd (assign_free (\<lambda>k. double_of_int 5) [''7001'', ''7002''] manager_stalled 0)))
             = map range_message as \<and> distinct as)"
proof -
  have h1: "0 < assignment_range manager_stalled"
    by (simp add: manager_stalled_def)
  have h2: "distinct (map fst (pending (problem manager_stalled)))"
    by (simp add: manager_stalled_def)
  have keys: "map fst (pending (problem manager_stalled)) = [range_message (0, 1000)]"
    by (simp add: manager_stalled_def range_message_0_1000)
  have h3: "\<forall>key\<in>set (map fst (pending (problem manager_stalled))). \<exists>a. key = range_message a"
    unfolding keys by auto
  obtain m' where pass:
    "assign_free (\<lambda>k. double_of_int 5) [''7001'', ''7002''] manager_stalled 0 = (None, m', 2)"
    and out: "outbox (sock m') = [(''0,1000'', 7001), (''1000,2000'', 7002)]"
    using pass_in_time by simp
  have h5: "\<forall>i j. clock_reads manager_stalled \<le> i \<and> i < j \<and> j < clock_reads m' \<longrightarrow>
              real_of_double ((\<lambda>k. double_of_int 5) j)
                \<le> real_of_double ((\<lambda>k. double_of_int 5) i) + real_of_double (resp_wait_time manager_stalled)"
    by (simp add: manager_stalled_def)
  have sent: "sent_payloads manager_stalled m' = [''0,1000'', ''1000,2000'']"
    using out by (simp add: sent_payloads_def manager_stalled_def)
  from no_range_sent_twice_in_a_pass [OF h1 h2 h3 pass h5] h1 h2 keys sent pass
  show ?thesis by simp
qed

lemma recv_results_nothing_waiting: "recv_results manager_stalled = manager_stalled"
  by (simp add: recv_results_def manager_stalled_def)

text \<open>
  C6, the claim as stated fails. One range is pending, stalled at a busy worker; two
  other workers are free,
  and two seconds pass between consecutive readings of the clock, more than the waiting
  time of one second: the timestamp written when the range goes to the first worker is
  already too old when the scan for the second worker reads it, and both workers are
  sent the range from 0 to 1000.
\<close>

theorem slow_pass_sends_range_twice:
  "outbox (sock (fst (snd (do_work_iteration (\<lambda>k. double_of_int (5 + 2 * int k))
       (Inr [(''7001'', 9000), (''7002'', 9000), (''7003'', 4000)]) (Inr ()) manager_stalled 0))))
     = [(range_message (0, 1000), 7001), (range_message (0, 1000), 7002)]"
proof -
  have players: "active_players (Inr [(''7001'', 9000), (''7002'', 9000), (''7003'', 4000)])
      = Inr (Some [''7001'', ''7002'', ''7003''])"
    by (simp add: active_players_def)
  have free: "filter (\<lambda>w. w \<notin> set (map fst (busy_workers (problem manager_stalled))))
      [''7001'', ''7002'', ''7003''] = [''7001'', ''7002'']"
    by (simp add: manager_stalled_def)
  show ?thesis
    by (simp only: do_work_iteration_def recv_results_nothing_waiting players Let_def
        sum.case option.case free pass_too_slow range_message_0_1000)
      (simp add: save_def)
qed

end
